theory Spec2Isabelle
  imports Main "HOL-Library.Word" "HOL-Library.Monad_Syntax" "HOL-Library.Sublist"
begin

section \<open>The validate-or-revoke messages job of the hub\<close>

text \<open>
  A shallow embedding of \<^verbatim>\<open>apps/hubble/src/storage/jobs/validateOrRevokeMessagesJob.ts\<close>:
  the class \<^verbatim>\<open>ValidateOrRevokeMessagesJobScheduler\<close> with its methods \<^verbatim>\<open>start\<close>,
  \<^verbatim>\<open>stop\<close>, \<^verbatim>\<open>status\<close>, \<^verbatim>\<open>doJobs\<close>, \<^verbatim>\<open>doJobForFid\<close> and \<^verbatim>\<open>doUsernamesJobForFid\<close>.

  The engine, the store iterator, the message decoder, the clock and the constants of
  \<^verbatim>\<open>db/types.js\<close> are collaborators the file imports; they are the fields of the
  record \<open>env\<close> below and every theorem holds for all of them. A \<^verbatim>\<open>do ... while\<close> loop
  whose exit depends on what a collaborator answers is a \<^theory_text>\<open>partial_function\<close> in the
  option monad: \<open>None\<close> is a loop that never exits. Logging and metrics are left out.

  A collaborator answers as a function of the request: within the runs considered the
  same request gets the same answer, and the store is read as it stands (what
  \<^verbatim>\<open>validateOrRevokeMessage\<close> changes in it is outside the model; its result only feeds
  the log, so the call is recorded and its result dropped). JavaScript numbers are
  \<open>nat\<close>: entity ids, counts and timestamps are non-negative integers far below
  \<open>2 ^ 53\<close>.
\<close>

subsection \<open>Data\<close>

type_synonym bytes = "8 word list"

text \<open>\<^verbatim>\<open>HubError\<close>: an error code and a message.\<close>

datatype hub_error = HubError string string

text \<open>
  How a call ends when it does not produce a value: an \<^verbatim>\<open>err(...)\<close> that the method
  returns, or an exception of an unguarded \<^verbatim>\<open>await\<close> (the promise rejects).
\<close>

datatype failure = Returned hub_error | Thrown hub_error

text \<open>\<^verbatim>\<open>result.unwrapOr(d)\<close> of neverthrow.\<close>

fun unwrapOr :: "'e + 'a \<Rightarrow> 'a \<Rightarrow> 'a" where
  "unwrapOr (Inr v) d = v"
| "unwrapOr (Inl e) d = d"

record on_chain_event =
  blockTimestamp :: nat

record signers_page =
  events :: "on_chain_event list"
  signersNextPageToken :: "bytes option"

record fids_page =
  fids :: "nat list"
  nextPageToken :: "bytes option"

datatype message = Message (hash: bytes)

record validate_or_revoke_state =
  lastFid :: nat
  lastJobTimestamp :: nat

text \<open>The hub state; the job reads and writes its field \<^verbatim>\<open>validateOrRevokeState\<close> only.\<close>

record hub_state =
  validateOrRevokeState :: "validate_or_revoke_state option"

text \<open>The store, as far as the job writes it: the hub state, absent before the first write.\<close>

record rocks_db =
  hubStateEntry :: "hub_state option"

text \<open>
  Modelled from the spec: \<^verbatim>\<open>getHubState\<close> and \<^verbatim>\<open>putHubState\<close> of
  \<^verbatim>\<open>storage/db/hubState.js\<close>, which is not part of the sources at hand. The
  checkpoint store persists and retrieves one small durable record; reading it can fail
  (``failure to fetch checkpoint''), writing it replaces it.
\<close>

definition getHubState :: "rocks_db \<Rightarrow> hub_error + hub_state" where
  "getHubState d =
     (case hubStateEntry d of
        None \<Rightarrow> Inl (HubError ''not_found'' ''hub state not found'')
      | Some h \<Rightarrow> Inr h)"

definition putHubState :: "rocks_db \<Rightarrow> hub_state \<Rightarrow> rocks_db" where
  "putHubState d h = d\<lparr>hubStateEntry := Some h\<rparr>"

text \<open>A task of the cron library: its expression, and whether it still fires.\<close>

record cron_task =
  expression :: string
  scheduled :: bool

text \<open>
  The collaborators. \<open>getFids\<close> takes the page token and the page size;
  \<open>getOnChainSignersByFid\<close> takes the entity and the page token of its page options;
  \<open>userEntries fid\<close> is the sequence of key/value pairs that
  \<^verbatim>\<open>forEachIteratorByPrefix(makeUserKey(fid), ...)\<close> hands to its callback before it
  ends (by exhaustion or by its time box); \<open>dateNow\<close> is what \<^verbatim>\<open>Date.now()\<close> reads
  when the run starts; \<open>cron_schedule\<close> is \<^verbatim>\<open>cron.schedule\<close>, which registers a task or
  throws on an expression it rejects.
\<close>

record env =
  getFids :: "bytes option \<Rightarrow> nat \<Rightarrow> hub_error + fids_page"
  getOnChainSignersByFid :: "nat \<Rightarrow> bytes option \<Rightarrow> hub_error + signers_page"
  userEntries :: "nat \<Rightarrow> (bytes \<times> bytes) list"
  messageDecode :: "bytes \<Rightarrow> hub_error + message"
  toFarcasterTime :: "nat \<Rightarrow> hub_error + nat"
  dateNow :: nat
  FID_BYTES :: nat
  TSHASH_LENGTH :: nat
  UserMessagePostfixMax :: nat
  UsernameProofMessage :: nat
  UserDataMessage :: nat
  cron_schedule :: "string \<Rightarrow> hub_error + cron_task"

text \<open>
  The calls a method makes to its collaborators, in order. A decode call carries the key
  of the entry whose value it decodes, so that entries with equal values stay apart.
\<close>

datatype call =
    GetFids "bytes option" nat
  | GetOnChainSignersByFid nat "bytes option"
  | ForEachIteratorByPrefix nat
  | MessageDecode bytes bytes
  | ValidateOrRevokeMessage message

subsection \<open>The scheduler object\<close>

text \<open>The fields \<^verbatim>\<open>_cronTask\<close>, \<^verbatim>\<open>_running\<close> and \<^verbatim>\<open>_db\<close> of the class.\<close>

record scheduler =
  cronTask :: "cron_task option"
  running :: bool
  db :: rocks_db

datatype scheduler_status = Started | Stopped

definition DEFAULT_VALIDATE_AND_REVOKE_MESSAGES_CRON :: string where
  "DEFAULT_VALIDATE_AND_REVOKE_MESSAGES_CRON = ''0 1 * * *''"

definition start :: "env \<Rightarrow> string option \<Rightarrow> scheduler \<Rightarrow> failure + scheduler" where
  "start env cronSchedule s =
     (case cron_schedule env
             (case cronSchedule of
                None \<Rightarrow> DEFAULT_VALIDATE_AND_REVOKE_MESSAGES_CRON
              | Some c \<Rightarrow> c) of
        Inl e \<Rightarrow> Inl (Thrown e)
      | Inr t \<Rightarrow> Inr (s\<lparr>cronTask := Some t\<rparr>))"

text \<open>\<^verbatim>\<open>this._cronTask.stop()\<close> stops the task; the field keeps referring to it.\<close>

definition stop :: "scheduler \<Rightarrow> scheduler" where
  "stop s =
     (case cronTask s of
        Some t \<Rightarrow> s\<lparr>cronTask := Some (t\<lparr>scheduled := False\<rparr>)\<rparr>
      | None \<Rightarrow> s)"

definition status :: "scheduler \<Rightarrow> scheduler_status" where
  "status s = (if cronTask s \<noteq> None then Started else Stopped)"

subsection \<open>The sweep of one entity\<close>

text \<open>
  The \<^verbatim>\<open>do ... while (!finished)\<close> loop of \<^verbatim>\<open>doJobForFid\<close>. The source assigns
  \<^verbatim>\<open>pageToken = nextPageToken\<close> and then calls
  \<^verbatim>\<open>this._engine.getOnChainSignersByFid(fid)\<close> with the entity alone: the page options
  of every request are empty.
\<close>

partial_function (option) doJobForFid_signers ::
  "env \<Rightarrow> nat \<Rightarrow> bytes option \<Rightarrow> on_chain_event list \<Rightarrow> call list
     \<Rightarrow> ((hub_error + on_chain_event list) \<times> call list) option" where
  "doJobForFid_signers env fid pageToken allSigners cs =
     (case getOnChainSignersByFid env fid None of
        Inl e \<Rightarrow> Some (Inl e, cs @ [GetOnChainSignersByFid fid None])
      | Inr signers \<Rightarrow>
          (case signersNextPageToken signers of
             None \<Rightarrow>
               Some (Inr (allSigners @ events signers), cs @ [GetOnChainSignersByFid fid None])
           | Some t \<Rightarrow>
               doJobForFid_signers env fid (Some t) (allSigners @ events signers)
                 (cs @ [GetOnChainSignersByFid fid None])))"

declare doJobForFid_signers.simps [code]

text \<open>The newest signer event, in Farcaster time; \<^verbatim>\<open>reduce\<close> starts at 0.\<close>

definition latestSignerEventTs :: "env \<Rightarrow> on_chain_event list \<Rightarrow> nat" where
  "latestSignerEventTs env allSigners =
     unwrapOr
       (toFarcasterTime env
          (1000 * foldl (\<lambda>acc signer. if acc > blockTimestamp signer then acc
                                      else blockTimestamp signer) 0 allSigners))
       0"

text \<open>
  The callback of the record sweep, on the running count and the calls made so far.
  \<^verbatim>\<open>readUint8\<close> reads inside the key: its length has just been checked.
\<close>

fun doJobForFid_callback ::
  "env \<Rightarrow> nat \<times> call list \<Rightarrow> bytes \<times> bytes \<Rightarrow> nat \<times> call list" where
  "doJobForFid_callback env (count, cs) (key, val) =
     (if length key \<noteq> 1 + FID_BYTES env + 1 + TSHASH_LENGTH env then (count, cs)
      else if unat (key ! (1 + FID_BYTES env)) > UserMessagePostfixMax env then (count, cs)
      else (case messageDecode env val of
              Inl e \<Rightarrow> (count, cs @ [MessageDecode key val])
            | Inr m \<Rightarrow>
                (count + 1, cs @ [MessageDecode key val, ValidateOrRevokeMessage m])))"

definition doJobForFid ::
  "env \<Rightarrow> nat \<Rightarrow> nat \<Rightarrow> ((hub_error + nat) \<times> call list) option" where
  "doJobForFid env lastJobTimestamp' fid =
     do {
       (r, cs) \<leftarrow> doJobForFid_signers env fid None [] [];
       (case r of
          Inl e \<Rightarrow> Some (Inl e, cs)
        | Inr allSigners \<Rightarrow>
            if latestSignerEventTs env allSigners < lastJobTimestamp' then Some (Inr 0, cs)
            else (case foldl (doJobForFid_callback env) (0, cs @ [ForEachIteratorByPrefix fid])
                         (userEntries env fid) of
                    (count, cs') \<Rightarrow> Some (Inr count, cs')))
     }"

fun doUsernamesJobForFid_callback ::
  "env \<Rightarrow> nat \<times> call list \<Rightarrow> bytes \<times> bytes \<Rightarrow> nat \<times> call list" where
  "doUsernamesJobForFid_callback env (count, cs) (key, val) =
     (if length key \<noteq> 1 + FID_BYTES env + 1 + TSHASH_LENGTH env then (count, cs)
      else if unat (key ! (1 + FID_BYTES env)) \<noteq> UsernameProofMessage env
              \<and> unat (key ! (1 + FID_BYTES env)) \<noteq> UserDataMessage env then (count, cs)
      else (case messageDecode env val of
              Inl e \<Rightarrow> (count, cs @ [MessageDecode key val])
            | Inr m \<Rightarrow>
                (count + 1, cs @ [MessageDecode key val, ValidateOrRevokeMessage m])))"

definition doUsernamesJobForFid :: "env \<Rightarrow> nat \<Rightarrow> (hub_error + nat) \<times> call list" where
  "doUsernamesJobForFid env fid =
     (case foldl (doUsernamesJobForFid_callback env) (0, [ForEachIteratorByPrefix fid])
             (userEntries env fid) of
        (count, cs) \<Rightarrow> (Inr count, cs))"

subsection \<open>The run\<close>

text \<open>The locals of \<^verbatim>\<open>doJobs\<close> that its loops update, the store, and the calls so far.\<close>

record run_state =
  totalMessagesChecked :: nat
  totalFidsChecked :: nat
  store :: rocks_db
  calls :: "call list"

text \<open>
  The \<^verbatim>\<open>for\<close> loop over the entities of one page. \<open>Inl\<close> is a run that an exception
  ended, with the state it left.
\<close>

fun doJobs_fids ::
  "env \<Rightarrow> nat \<Rightarrow> nat \<Rightarrow> nat list \<Rightarrow> run_state
     \<Rightarrow> ((failure \<times> run_state) + run_state) option" where
  "doJobs_fids env lastJobTimestamp' lastFid' [] st = Some (Inr st)"
| "doJobs_fids env lastJobTimestamp' lastFid' (fid # rest) st =
     (if lastFid' > 0 \<and> fid < lastFid' then doJobs_fids env lastJobTimestamp' lastFid' rest st
      else
        do {
          (numChecked, cs1) \<leftarrow> doJobForFid env lastJobTimestamp' fid;
          (case doUsernamesJobForFid env fid of
             (numUsernamesChecked, cs2) \<Rightarrow>
               let st1 = st\<lparr>totalMessagesChecked :=
                               totalMessagesChecked st
                                 + (unwrapOr numChecked 0 + unwrapOr numUsernamesChecked 0),
                             totalFidsChecked := totalFidsChecked st + 1,
                             calls := calls st @ cs1 @ cs2\<rparr>
               in
                 if totalFidsChecked st1 mod 5000 = 0 then
                   (case getHubState (store st1) of
                      Inl e \<Rightarrow> Some (Inl (Thrown e, st1))
                    | Inr hubState \<Rightarrow>
                        doJobs_fids env lastJobTimestamp' lastFid' rest
                          (st1\<lparr>store :=
                                 putHubState (store st1)
                                   (hubState\<lparr>validateOrRevokeState :=
                                      Some \<lparr>lastFid = fid,
                                            lastJobTimestamp = lastJobTimestamp'\<rparr>\<rparr>)\<rparr>))
                 else doJobs_fids env lastJobTimestamp' lastFid' rest st1)
        })"

text \<open>The \<^verbatim>\<open>do ... while (!finished)\<close> loop over the pages of entities.\<close>

partial_function (option) doJobs_pages ::
  "env \<Rightarrow> nat \<Rightarrow> nat \<Rightarrow> bytes option \<Rightarrow> run_state
     \<Rightarrow> ((failure \<times> run_state) + run_state) option" where
  "doJobs_pages env lastJobTimestamp' lastFid' pageToken st =
     (case getFids env pageToken 100 of
        Inl e \<Rightarrow> Some (Inl (Returned e, st\<lparr>calls := calls st @ [GetFids pageToken 100]\<rparr>))
      | Inr fidsPage \<Rightarrow>
          do {
            r \<leftarrow> doJobs_fids env lastJobTimestamp' lastFid' (fids fidsPage)
                   (st\<lparr>calls := calls st @ [GetFids pageToken 100]\<rparr>);
            (case r of
               Inl x \<Rightarrow> Some (Inl x)
             | Inr st' \<Rightarrow>
                 (case nextPageToken fidsPage of
                    None \<Rightarrow> Some (Inr st')
                  | Some t \<Rightarrow> doJobs_pages env lastJobTimestamp' lastFid' (Some t) st'))
          })"

declare doJobs_pages.simps [code]

text \<open>
  \<^verbatim>\<open>doJobs\<close>: the outcome, the scheduler afterwards, and the calls made. The flag
  \<^verbatim>\<open>_running\<close> is set on line 63 and cleared on line 125 only.
\<close>

definition doJobs ::
  "env \<Rightarrow> scheduler \<Rightarrow> ((failure + nat) \<times> scheduler \<times> call list) option" where
  "doJobs env s =
     (if running s then Some (Inr 0, s, [])
      else
        (case getHubState (db s) of
           Inl e \<Rightarrow> Some (Inl (Returned e), s, [])
         | Inr hubState \<Rightarrow>
             let lastJobTimestamp' =
                   (case validateOrRevokeState hubState of
                      None \<Rightarrow> 0 | Some v \<Rightarrow> lastJobTimestamp v);
                 lastFid' =
                   (case validateOrRevokeState hubState of
                      None \<Rightarrow> 0 | Some v \<Rightarrow> lastFid v);
                 s1 = s\<lparr>running := True\<rparr>;
                 startMs = dateNow env
             in
               do {
                 r \<leftarrow> doJobs_pages env lastJobTimestamp' lastFid' None
                        \<lparr>totalMessagesChecked = 0, totalFidsChecked = 0,
                         store = db s1, calls = []\<rparr>;
                 (case r of
                    Inl (f, st) \<Rightarrow> Some (Inl f, s1\<lparr>db := store st\<rparr>, calls st)
                  | Inr st \<Rightarrow>
                      (case getHubState (store st) of
                         Inl e \<Rightarrow> Some (Inl (Thrown e), s1\<lparr>db := store st\<rparr>, calls st)
                       | Inr hubState' \<Rightarrow>
                           Some
                             (Inr (totalMessagesChecked st),
                              s1\<lparr>db :=
                                   putHubState (store st)
                                     (hubState'\<lparr>validateOrRevokeState :=
                                        Some \<lparr>lastFid = 0,
                                              lastJobTimestamp =
                                                unwrapOr (toFarcasterTime env startMs) 0\<rparr>\<rparr>),
                                 running := False\<rparr>,
                              calls st)))
               }))"

subsection \<open>The run, cut at its awaits\<close>

text \<open>
  An \<^verbatim>\<open>async\<close> method runs without interruption from one \<^verbatim>\<open>await\<close> to the next, and
  at an \<^verbatim>\<open>await\<close> another call of the method may take its turn on the same object.
  The three definitions below are \<^verbatim>\<open>doJobs\<close> again, cut where a second call matters: a
  piece either returns the result of the call or is suspended with what it goes on with.
  Run one after the other they are \<open>doJobs\<close> (lemma \<open>doJobs_phases\<close>).
\<close>

datatype 'a progress = Returns "failure + nat" | Awaits 'a

text \<open>
  Lines 46 to 51: the test of the flag, and the read of the hub state that the call then
  awaits. The scheduler stays as it is.
\<close>

definition doJobs_enter :: "scheduler \<Rightarrow> (hub_error + hub_state) progress" where
  "doJobs_enter s =
     (if running s then Returns (Inr 0) else Awaits (getHubState (db s)))"

text \<open>
  Lines 52 to 67, with the answer of the read: the locals \<^verbatim>\<open>lastJobTimestamp\<close>,
  \<^verbatim>\<open>lastFid\<close> and \<^verbatim>\<open>start\<close>, and the flag, set on line 63 without a second test.
  The call is next suspended at the \<^verbatim>\<open>await\<close> of line 72.
\<close>

definition doJobs_start ::
  "env \<Rightarrow> hub_error + hub_state \<Rightarrow> scheduler \<Rightarrow> (nat \<times> nat \<times> nat) progress \<times> scheduler" where
  "doJobs_start env hubStateResult s =
     (case hubStateResult of
        Inl e \<Rightarrow> (Returns (Inl (Returned e)), s)
      | Inr hubState \<Rightarrow>
          (Awaits
             ((case validateOrRevokeState hubState of
                 None \<Rightarrow> 0 | Some v \<Rightarrow> lastJobTimestamp v),
              (case validateOrRevokeState hubState of
                 None \<Rightarrow> 0 | Some v \<Rightarrow> lastFid v),
              dateNow env),
           s\<lparr>running := True\<rparr>))"

text \<open>Lines 69 to 127: the scan with those locals, on the scheduler as it is by then.\<close>

definition doJobs_scan ::
  "env \<Rightarrow> nat \<times> nat \<times> nat \<Rightarrow> scheduler
     \<Rightarrow> ((failure + nat) \<times> scheduler \<times> call list) option" where
  "doJobs_scan env locals s1 =
     (case locals of
        (lastJobTimestamp', lastFid', startMs) \<Rightarrow>
          do {
            r \<leftarrow> doJobs_pages env lastJobTimestamp' lastFid' None
                   \<lparr>totalMessagesChecked = 0, totalFidsChecked = 0,
                    store = db s1, calls = []\<rparr>;
            (case r of
               Inl (f, st) \<Rightarrow> Some (Inl f, s1\<lparr>db := store st\<rparr>, calls st)
             | Inr st \<Rightarrow>
                 (case getHubState (store st) of
                    Inl e \<Rightarrow> Some (Inl (Thrown e), s1\<lparr>db := store st\<rparr>, calls st)
                  | Inr hubState' \<Rightarrow>
                      Some
                        (Inr (totalMessagesChecked st),
                         s1\<lparr>db :=
                              putHubState (store st)
                                (hubState'\<lparr>validateOrRevokeState :=
                                   Some \<lparr>lastFid = 0,
                                         lastJobTimestamp =
                                           unwrapOr (toFarcasterTime env startMs) 0\<rparr>\<rparr>),
                            running := False\<rparr>,
                         calls st)))
          })"

subsection \<open>Notions for stating the properties\<close>

text \<open>The state a loop ended with, whether an exception ended it or not.\<close>

fun final_state :: "(failure \<times> run_state) + run_state \<Rightarrow> run_state" where
  "final_state (Inl (f, st)) = st"
| "final_state (Inr st) = st"

text \<open>
  \<open>fidsPagesFrom env tok ps\<close>: asked from the token \<open>tok\<close> on, the entity source answers
  with the pages \<open>ps\<close>, each fetched with the token the previous one gave, the last one
  without a next token.
\<close>

inductive fidsPagesFrom :: "env \<Rightarrow> bytes option \<Rightarrow> fids_page list \<Rightarrow> bool" where
  last_page: "getFids env tok 100 = Inr p \<Longrightarrow> nextPageToken p = None \<Longrightarrow> fidsPagesFrom env tok [p]"
| next_page: "getFids env tok 100 = Inr p \<Longrightarrow> nextPageToken p = Some t \<Longrightarrow> fidsPagesFrom env (Some t) ps
     \<Longrightarrow> fidsPagesFrom env tok (p # ps)"

text \<open>
  In a list of calls, every entity whose signer events were requested has the calls of
  its \<^verbatim>\<open>doJobForFid\<close> immediately followed by the calls of its
  \<^verbatim>\<open>doUsernamesJobForFid\<close>.
\<close>

definition usernames_follow :: "env \<Rightarrow> nat \<Rightarrow> call list \<Rightarrow> bool" where
  "usernames_follow env ts cs \<longleftrightarrow>
     (\<forall>fid. GetOnChainSignersByFid fid None \<in> set cs \<longrightarrow>
        (\<exists>r cs1. doJobForFid env ts fid = Some (r, cs1)
           \<and> sublist (cs1 @ snd (doUsernamesJobForFid env fid)) cs))"

text \<open>
  \<open>reaches env s s'\<close>: some sequence of calls of \<^verbatim>\<open>start\<close>, \<^verbatim>\<open>stop\<close> and
  \<^verbatim>\<open>doJobs\<close> that return leads from the scheduler \<open>s\<close> to \<open>s'\<close>. A \<^verbatim>\<open>start\<close> that
  throws leaves the scheduler as it was.
\<close>

inductive reaches :: "env \<Rightarrow> scheduler \<Rightarrow> scheduler \<Rightarrow> bool" where
  here: "reaches env s s"
| by_start: "reaches env s s1 \<Longrightarrow> start env c s1 = Inr s2 \<Longrightarrow> reaches env s s2"
| by_stop: "reaches env s s1 \<Longrightarrow> reaches env s (stop s1)"
| by_doJobs: "reaches env s s1 \<Longrightarrow> doJobs env s1 = Some (r, s2, cs) \<Longrightarrow> reaches env s s2"

subsection \<open>An example hub\<close>

text \<open>
  Three entities on two pages: 10 and 20, then 30. Entity 20 has two signer events, the
  newest at Farcaster time 100, and five keys under its prefix: a cast message, a key
  that is too short, a key whose tag 86 is above the maximum 85, a username proof and a
  user data message whose value does not decode. The run starts at Farcaster time 500.
  A fault makes the signer fetch of entity 10 fail, makes the fetch of the second page
  of entities fail, or splits the signer events of entity 20 over two pages.
\<close>

datatype ex_fault = SignerFetchFails | SecondPageFails | SignersPaged

definition ex_error :: hub_error where
  "ex_error = HubError ''unavailable'' ''event source unreachable''"

definition ex_page_error :: hub_error where
  "ex_page_error = HubError ''unavailable'' ''fid page unreachable''"

definition ex_key :: "8 word \<Rightarrow> 8 word \<Rightarrow> bytes" where
  "ex_key fid tag = [1, 0, 0, 0, fid, tag] @ replicate 24 0"

definition ex_env :: "ex_fault list \<Rightarrow> env" where
  "ex_env faults =
     \<lparr>getFids = (\<lambda>tok size.
          if tok = None then Inr \<lparr>fids = [10, 20], nextPageToken = Some [1]\<rparr>
          else if tok = Some [1] \<and> SecondPageFails \<notin> set faults
            then Inr \<lparr>fids = [30], nextPageToken = None\<rparr>
          else Inl ex_page_error),
      getOnChainSignersByFid = (\<lambda>fid tok.
          if fid = 10 \<and> SignerFetchFails \<in> set faults then Inl ex_error
          else if fid = 20 \<and> SignersPaged \<in> set faults then
            (if tok = None
             then Inr \<lparr>events = [\<lparr>blockTimestamp = 1609459300\<rparr>],
                       signersNextPageToken = Some [7]\<rparr>
             else Inr \<lparr>events = [\<lparr>blockTimestamp = 1609459250\<rparr>],
                       signersNextPageToken = None\<rparr>)
          else if fid = 20 then
            Inr \<lparr>events = [\<lparr>blockTimestamp = 1609459300\<rparr>, \<lparr>blockTimestamp = 1609459250\<rparr>],
                 signersNextPageToken = None\<rparr>
          else Inr \<lparr>events = [], signersNextPageToken = None\<rparr>),
      userEntries = (\<lambda>fid.
          if fid = 20 then
            [(ex_key 20 1, [10]), ([1, 0, 0, 0, 20], [11]), (ex_key 20 86, [12]),
             (ex_key 20 7, [13]), (ex_key 20 6, [])]
          else []),
      messageDecode = (\<lambda>v. if v = [] then Inl ex_error else Inr (Message v)),
      toFarcasterTime = (\<lambda>ms. if ms < 1609459200000 then Inl ex_error
                               else Inr ((ms - 1609459200000) div 1000)),
      dateNow = 1609459700000,
      FID_BYTES = 4,
      TSHASH_LENGTH = 24,
      UserMessagePostfixMax = 85,
      UsernameProofMessage = 7,
      UserDataMessage = 6,
      cron_schedule = (\<lambda>e. if e = [] then Inl ex_error
                            else Inr \<lparr>expression = e, scheduled = True\<rparr>)\<rparr>"

text \<open>A scheduler that is idle, with a checkpoint \<open>lastFid = f\<close>, \<open>lastJobTimestamp = t\<close>.\<close>

definition ex_scheduler :: "nat \<Rightarrow> nat \<Rightarrow> scheduler" where
  "ex_scheduler f t =
     \<lparr>cronTask = None, running = False,
      db = \<lparr>hubStateEntry =
              Some \<lparr>validateOrRevokeState = Some \<lparr>lastFid = f, lastJobTimestamp = t\<rparr>\<rparr>\<rparr>\<rparr>"

section \<open>Properties\<close>

subsection \<open>The loop over the signer pages\<close>

text \<open>
  Every request of the loop is the request for the first page. So the loop ends after
  one request when that page is the last one or the request fails, and never ends when
  the first page names a next page.
\<close>

lemma signers_error:
  "getOnChainSignersByFid env fid None = Inl e \<Longrightarrow>
   doJobForFid_signers env fid tok acc cs = Some (Inl e, cs @ [GetOnChainSignersByFid fid None])"
  by (subst doJobForFid_signers.simps) simp

lemma signers_last_page:
  "getOnChainSignersByFid env fid None = Inr p \<Longrightarrow> signersNextPageToken p = None \<Longrightarrow>
   doJobForFid_signers env fid tok acc cs
     = Some (Inr (acc @ events p), cs @ [GetOnChainSignersByFid fid None])"
  by (subst doJobForFid_signers.simps) simp

lemma signers_returns_single_page:
  assumes "doJobForFid_signers env fid tok acc cs = Some y"
  shows "\<forall>p t. getOnChainSignersByFid env fid None = Inr p \<longrightarrow> signersNextPageToken p \<noteq> Some t"
proof (rule doJobForFid_signers.raw_induct
    [where P = "\<lambda>env fid tok acc cs y. \<forall>p t. getOnChainSignersByFid env fid None = Inr p
                   \<longrightarrow> signersNextPageToken p \<noteq> Some t", OF _ assms])
  fix f env fid tok acc cs y
  assume IH: "\<And>env fid tok acc cs y. f env fid tok acc cs = Some y \<Longrightarrow>
           \<forall>p t. getOnChainSignersByFid env fid None = Inr p \<longrightarrow> signersNextPageToken p \<noteq> Some t"
    and step: "(case getOnChainSignersByFid env fid None of
        Inl e \<Rightarrow> Some (Inl e, cs @ [GetOnChainSignersByFid fid None])
      | Inr signers \<Rightarrow>
          (case signersNextPageToken signers of
             None \<Rightarrow>
               Some (Inr (acc @ events signers), cs @ [GetOnChainSignersByFid fid None])
           | Some t \<Rightarrow>
               f env fid (Some t) (acc @ events signers)
                 (cs @ [GetOnChainSignersByFid fid None]))) = Some y"
  show "\<forall>p t. getOnChainSignersByFid env fid None = Inr p \<longrightarrow> signersNextPageToken p \<noteq> Some t"
  proof (intro allI impI notI)
    fix p t
    assume p: "getOnChainSignersByFid env fid None = Inr p" and t: "signersNextPageToken p = Some t"
    from step p t have "f env fid (Some t) (acc @ events p) (cs @ [GetOnChainSignersByFid fid None]) = Some y"
      by simp
    from IH [OF this] p t show False by blast
  qed
qed

lemma signers_more_pages:
  assumes "getOnChainSignersByFid env fid None = Inr p" "signersNextPageToken p = Some t"
  shows "doJobForFid_signers env fid tok acc cs = None"
proof (cases "doJobForFid_signers env fid tok acc cs")
  case None
  then show ?thesis .
next
  case (Some y)
  from signers_returns_single_page [OF Some] assms show ?thesis by blast
qed

lemma signers_calls:
  assumes "doJobForFid_signers env fid tok acc cs = Some (r, cs')"
  shows "cs' = cs @ [GetOnChainSignersByFid fid None]"
proof (cases "getOnChainSignersByFid env fid None")
  case (Inl e)
  from signers_error [OF Inl] assms show ?thesis by simp
next
  case (Inr p)
  show ?thesis
  proof (cases "signersNextPageToken p")
    case None
    from signers_last_page [OF Inr None] assms show ?thesis by simp
  next
    case (Some t)
    from signers_more_pages [OF Inr Some] assms show ?thesis by simp
  qed
qed

subsection \<open>The callbacks of the sweeps and the calls of one entity\<close>

lemma job_callback_shift:
  "doJobForFid_callback env (n, cs) e
     = (n + fst (doJobForFid_callback env (0, []) e),
        cs @ snd (doJobForFid_callback env (0, []) e))"
  by (cases e) (simp split: sum.splits)

lemma job_sweep_shift:
  "foldl (doJobForFid_callback env) (n, cs) es
     = (n + sum_list (map (\<lambda>e. fst (doJobForFid_callback env (0, []) e)) es),
        cs @ concat (map (\<lambda>e. snd (doJobForFid_callback env (0, []) e)) es))"
proof (induction es arbitrary: n cs)
  case Nil
  show ?case by simp
next
  case (Cons e es)
  show ?case
    by (simp only: foldl_Cons job_callback_shift [of env n cs e] Cons.IH) simp
qed

lemma usernames_callback_shift:
  "doUsernamesJobForFid_callback env (n, cs) e
     = (n + fst (doUsernamesJobForFid_callback env (0, []) e),
        cs @ snd (doUsernamesJobForFid_callback env (0, []) e))"
  by (cases e) (simp split: sum.splits)

lemma usernames_sweep_shift:
  "foldl (doUsernamesJobForFid_callback env) (n, cs) es
     = (n + sum_list (map (\<lambda>e. fst (doUsernamesJobForFid_callback env (0, []) e)) es),
        cs @ concat (map (\<lambda>e. snd (doUsernamesJobForFid_callback env (0, []) e)) es))"
proof (induction es arbitrary: n cs)
  case Nil
  show ?case by simp
next
  case (Cons e es)
  show ?case
    by (simp only: foldl_Cons usernames_callback_shift [of env n cs e] Cons.IH) simp
qed

lemma doUsernamesJobForFid_calls:
  "snd (doUsernamesJobForFid env fid)
     = ForEachIteratorByPrefix fid
         # concat (map (\<lambda>e. snd (doUsernamesJobForFid_callback env (0, []) e)) (userEntries env fid))"
  by (simp add: doUsernamesJobForFid_def usernames_sweep_shift split: prod.splits)

lemma doJobForFid_cases:
  assumes "doJobForFid env ts fid = Some (r, cs)"
  shows "(\<exists>e. r = Inl e \<and> cs = [GetOnChainSignersByFid fid None])
       \<or> (r = Inr 0 \<and> cs = [GetOnChainSignersByFid fid None])
       \<or> (\<exists>n. r = Inr n \<and> cs = GetOnChainSignersByFid fid None # ForEachIteratorByPrefix fid
             # concat (map (\<lambda>e. snd (doJobForFid_callback env (0, []) e)) (userEntries env fid)))"
proof (cases "doJobForFid_signers env fid None [] []")
  case None
  with assms show ?thesis by (simp add: doJobForFid_def)
next
  case (Some y)
  obtain r0 cs0 where y: "y = (r0, cs0)" by (cases y)
  from signers_calls [of env fid None "[]" "[]" r0 cs0] Some y
  have cs0: "cs0 = [GetOnChainSignersByFid fid None]" by simp
  show ?thesis
    using assms Some y cs0
    by (auto simp: doJobForFid_def job_sweep_shift split: sum.splits if_splits prod.splits)
qed

lemma fidsPagesFrom_unique:
  "fidsPagesFrom env tok ps \<Longrightarrow> fidsPagesFrom env tok ps' \<Longrightarrow> ps = ps'"
proof (induction arbitrary: ps' rule: fidsPagesFrom.induct)
  case (last_page env tok p)
  from last_page.prems last_page.hyps show ?case
    by (cases rule: fidsPagesFrom.cases) auto
next
  case (next_page env tok p t ps)
  from next_page.prems next_page.hyps(1,2) next_page.IH show ?case
    by (cases rule: fidsPagesFrom.cases) auto
qed

lemma job_callback_calls:
  "snd (doJobForFid_callback env (0, []) (key, val))
     = (if length key = 1 + FID_BYTES env + 1 + TSHASH_LENGTH env
           \<and> unat (key ! (1 + FID_BYTES env)) \<le> UserMessagePostfixMax env
        then (case messageDecode env val of
                Inl e \<Rightarrow> [MessageDecode key val]
              | Inr m \<Rightarrow> [MessageDecode key val, ValidateOrRevokeMessage m])
        else [])"
  by (simp split: sum.splits)

lemma usernames_callback_calls:
  "snd (doUsernamesJobForFid_callback env (0, []) (key, val))
     = (if length key = 1 + FID_BYTES env + 1 + TSHASH_LENGTH env
           \<and> (unat (key ! (1 + FID_BYTES env)) = UsernameProofMessage env
                \<or> unat (key ! (1 + FID_BYTES env)) = UserDataMessage env)
        then (case messageDecode env val of
                Inl e \<Rightarrow> [MessageDecode key val]
              | Inr m \<Rightarrow> [MessageDecode key val, ValidateOrRevokeMessage m])
        else [])"
  by (simp split: sum.splits)

lemma job_sweep_no_fetch:
  assumes "c \<in> set (concat (map (\<lambda>e. snd (doJobForFid_callback env (0, []) e)) es))"
  shows "(\<exists>k v. c = MessageDecode k v) \<or> (\<exists>m. c = ValidateOrRevokeMessage m)"
  using assms by (auto simp: job_callback_calls split: if_splits sum.splits)

lemma usernames_sweep_no_fetch:
  assumes "c \<in> set (concat (map (\<lambda>e. snd (doUsernamesJobForFid_callback env (0, []) e)) es))"
  shows "(\<exists>k v. c = MessageDecode k v) \<or> (\<exists>m. c = ValidateOrRevokeMessage m)"
  using assms by (auto simp: usernames_callback_calls split: if_splits sum.splits)

lemma usernames_calls_iterate:
  "(ForEachIteratorByPrefix f \<in> set (snd (doUsernamesJobForFid env fid))) = (f = fid)"
  using usernames_sweep_no_fetch [of "ForEachIteratorByPrefix f" env "userEntries env fid"]
  by (auto simp: doUsernamesJobForFid_calls simp del: doUsernamesJobForFid_callback.simps set_concat)

lemma usernames_calls_signers:
  "GetOnChainSignersByFid f tok \<notin> set (snd (doUsernamesJobForFid env fid))"
  using usernames_sweep_no_fetch [of "GetOnChainSignersByFid f tok" env "userEntries env fid"]
  by (auto simp: doUsernamesJobForFid_calls simp del: doUsernamesJobForFid_callback.simps set_concat)

lemma usernames_calls_getFids:
  "GetFids tok n \<notin> set (snd (doUsernamesJobForFid env fid))"
  using usernames_sweep_no_fetch [of "GetFids tok n" env "userEntries env fid"]
  by (auto simp: doUsernamesJobForFid_calls simp del: doUsernamesJobForFid_callback.simps set_concat)

lemma doJobForFid_calls_iterate:
  assumes "doJobForFid env ts fid = Some (r, cs)" "ForEachIteratorByPrefix f \<in> set cs"
  shows "f = fid"
  using doJobForFid_cases [OF assms(1)] assms(2)
    job_sweep_no_fetch [of "ForEachIteratorByPrefix f" env "userEntries env fid"]
  by (auto simp del: doJobForFid_callback.simps set_concat)

lemma doJobForFid_calls_signers:
  assumes "doJobForFid env ts fid = Some (r, cs)"
  shows "(GetOnChainSignersByFid f tok \<in> set cs) = (f = fid \<and> tok = None)"
  using doJobForFid_cases [OF assms(1)]
    job_sweep_no_fetch [of "GetOnChainSignersByFid f tok" env "userEntries env fid"]
  by (auto simp del: doJobForFid_callback.simps set_concat)

lemma doJobForFid_calls_getFids:
  assumes "doJobForFid env ts fid = Some (r, cs)"
  shows "GetFids tok n \<notin> set cs"
  using doJobForFid_cases [OF assms(1)]
    job_sweep_no_fetch [of "GetFids tok n" env "userEntries env fid"]
  by (auto simp del: doJobForFid_callback.simps set_concat)

subsection \<open>The loop over the entities of a page\<close>

lemma doJobs_fids_Cons:
  assumes "doJobs_fids env ts lf (fid # rest) st = Some res"
  shows "(0 < lf \<and> fid < lf \<and> doJobs_fids env ts lf rest st = Some res)
       \<or> (\<not> (0 < lf \<and> fid < lf)
           \<and> (\<exists>r cs1 st1. doJobForFid env ts fid = Some (r, cs1)
                 \<and> calls st1 = calls st @ cs1 @ snd (doUsernamesJobForFid env fid)
                 \<and> ((\<exists>e. res = Inl (Thrown e, st1))
                      \<or> doJobs_fids env ts lf rest st1 = Some res)))"
proof (cases "0 < lf \<and> fid < lf")
  case True
  with assms show ?thesis by simp
next
  case False
  show ?thesis
  proof (cases "doJobForFid env ts fid")
    case None
    with assms False show ?thesis by simp
  next
    case (Some y)
    obtain r cs1 where y: "y = (r, cs1)" by (cases y)
    obtain u cs2 where u: "doUsernamesJobForFid env fid = (u, cs2)"
      by (cases "doUsernamesJobForFid env fid")
    define st1 where "st1 = st\<lparr>totalMessagesChecked :=
                               totalMessagesChecked st + (unwrapOr r 0 + unwrapOr u 0),
                             totalFidsChecked := totalFidsChecked st + 1,
                             calls := calls st @ cs1 @ cs2\<rparr>"
    have c1: "calls st1 = calls st @ cs1 @ snd (doUsernamesJobForFid env fid)"
      by (simp add: st1_def u)
    show ?thesis
    proof (cases "totalFidsChecked st1 mod 5000 = 0")
      case False
      with assms \<open>\<not> (0 < lf \<and> fid < lf)\<close> Some y u
      have "doJobs_fids env ts lf rest st1 = Some res"
        by (simp add: st1_def Let_def)
      with c1 Some y \<open>\<not> (0 < lf \<and> fid < lf)\<close> show ?thesis by blast
    next
      case True
      show ?thesis
      proof (cases "getHubState (store st1)")
        case (Inl e)
        with assms \<open>\<not> (0 < lf \<and> fid < lf)\<close> Some y u True
        have "res = Inl (Thrown e, st1)"
          by (simp add: st1_def Let_def)
        with c1 Some y \<open>\<not> (0 < lf \<and> fid < lf)\<close> show ?thesis by blast
      next
        case (Inr h)
        define st2 where "st2 = st1\<lparr>store := putHubState (store st1)
                 (h\<lparr>validateOrRevokeState := Some \<lparr>lastFid = fid, lastJobTimestamp = ts\<rparr>\<rparr>)\<rparr>"
        from assms \<open>\<not> (0 < lf \<and> fid < lf)\<close> Some y u True Inr
        have "doJobs_fids env ts lf rest st2 = Some res"
          by (simp add: st1_def st2_def Let_def)
        moreover have "calls st2 = calls st @ cs1 @ snd (doUsernamesJobForFid env fid)"
          by (simp add: st2_def c1)
        ultimately show ?thesis
          using Some y \<open>\<not> (0 < lf \<and> fid < lf)\<close> by blast
      qed
    qed
  qed
qed

lemma doJobs_fids_never_returns_err:
  "doJobs_fids env ts lf fs st \<noteq> Some (Inl (Returned e, st'))"
proof (induction fs arbitrary: st)
  case Nil
  show ?case by simp
next
  case (Cons fid rest)
  show ?case
  proof
    assume "doJobs_fids env ts lf (fid # rest) st = Some (Inl (Returned e, st'))"
    from doJobs_fids_Cons [OF this] Cons.IH show False by auto
  qed
qed

lemma doJobs_fids_iterate:
  assumes "doJobs_fids env ts lf fs st = Some (Inr st')"
  shows "(ForEachIteratorByPrefix f \<in> set (calls st'))
       = (ForEachIteratorByPrefix f \<in> set (calls st) \<or> (f \<in> set fs \<and> \<not> (0 < lf \<and> f < lf)))"
  using assms
proof (induction fs arbitrary: st)
  case Nil
  then show ?case by simp
next
  case (Cons fid rest)
  from doJobs_fids_Cons [OF Cons.prems]
  show ?case
  proof (elim disjE conjE exE)
    assume "0 < lf" "fid < lf" "doJobs_fids env ts lf rest st = Some (Inr st')"
    with Cons.IH [of st] show ?thesis by auto
  next
    fix r cs1 st1 e
    assume "Inr st' = Inl (Thrown e, st1)"
    then show ?thesis by simp
  next
    fix r cs1 st1
    assume ns: "\<not> (0 < lf \<and> fid < lf)" and j: "doJobForFid env ts fid = Some (r, cs1)"
      and c: "calls st1 = calls st @ cs1 @ snd (doUsernamesJobForFid env fid)"
      and rest: "doJobs_fids env ts lf rest st1 = Some (Inr st')"
    from Cons.IH [OF rest] c ns doJobForFid_calls_iterate [OF j]
    show ?thesis by (auto simp: usernames_calls_iterate)
  qed
qed

lemma doJobs_fids_signers:
  assumes "doJobs_fids env ts lf fs st = Some (Inr st')"
  shows "(GetOnChainSignersByFid f tok \<in> set (calls st'))
       = (GetOnChainSignersByFid f tok \<in> set (calls st)
            \<or> (tok = None \<and> f \<in> set fs \<and> \<not> (0 < lf \<and> f < lf)))"
  using assms
proof (induction fs arbitrary: st)
  case Nil
  then show ?case by simp
next
  case (Cons fid rest)
  from doJobs_fids_Cons [OF Cons.prems]
  show ?case
  proof (elim disjE conjE exE)
    assume "0 < lf" "fid < lf" "doJobs_fids env ts lf rest st = Some (Inr st')"
    with Cons.IH [of st] show ?thesis by auto
  next
    fix r cs1 st1 e
    assume "Inr st' = Inl (Thrown e, st1)"
    then show ?thesis by simp
  next
    fix r cs1 st1
    assume ns: "\<not> (0 < lf \<and> fid < lf)" and j: "doJobForFid env ts fid = Some (r, cs1)"
      and c: "calls st1 = calls st @ cs1 @ snd (doUsernamesJobForFid env fid)"
      and rest: "doJobs_fids env ts lf rest st1 = Some (Inr st')"
    from Cons.IH [OF rest] c ns doJobForFid_calls_signers [OF j]
    show ?thesis by (auto simp: usernames_calls_signers)
  qed
qed

subsection \<open>The loop over the pages of entities\<close>

text \<open>An induction rule for the runs of the loop that end.\<close>

lemma doJobs_pages_induct [consumes 1, case_names fetch_failed thrown last_page next_page]:
  assumes run: "doJobs_pages env ts lf tok st = Some res"
    and fetch_failed: "\<And>tok st e. getFids env tok 100 = Inl e
          \<Longrightarrow> P tok st (Inl (Returned e, st\<lparr>calls := calls st @ [GetFids tok 100]\<rparr>))"
    and thrown: "\<And>tok st p x. getFids env tok 100 = Inr p
          \<Longrightarrow> doJobs_fids env ts lf (fids p) (st\<lparr>calls := calls st @ [GetFids tok 100]\<rparr>) = Some (Inl x)
          \<Longrightarrow> P tok st (Inl x)"
    and last_page: "\<And>tok st p st1. getFids env tok 100 = Inr p
          \<Longrightarrow> doJobs_fids env ts lf (fids p) (st\<lparr>calls := calls st @ [GetFids tok 100]\<rparr>) = Some (Inr st1)
          \<Longrightarrow> nextPageToken p = None
          \<Longrightarrow> P tok st (Inr st1)"
    and next_page: "\<And>tok st p st1 t res. getFids env tok 100 = Inr p
          \<Longrightarrow> doJobs_fids env ts lf (fids p) (st\<lparr>calls := calls st @ [GetFids tok 100]\<rparr>) = Some (Inr st1)
          \<Longrightarrow> nextPageToken p = Some t
          \<Longrightarrow> P (Some t) st1 res
          \<Longrightarrow> P tok st res"
  shows "P tok st res"
proof -
  have "env = env \<longrightarrow> ts = ts \<longrightarrow> lf = lf \<longrightarrow> P tok st res"
  proof (rule doJobs_pages.raw_induct
      [where P = "\<lambda>env' ts' lf' tok st res. env' = env \<longrightarrow> ts' = ts \<longrightarrow> lf' = lf \<longrightarrow> P tok st res",
        OF _ run])
    fix f env' ts' lf' tok st res
    assume IH: "\<And>env' ts' lf' tok st res. f env' ts' lf' tok st = Some res
               \<Longrightarrow> env' = env \<longrightarrow> ts' = ts \<longrightarrow> lf' = lf \<longrightarrow> P tok st res"
      and step: "(case getFids env' tok 100 of
        Inl e \<Rightarrow> Some (Inl (Returned e, st\<lparr>calls := calls st @ [GetFids tok 100]\<rparr>))
      | Inr fidsPage \<Rightarrow>
          do {
            r \<leftarrow> doJobs_fids env' ts' lf' (fids fidsPage)
                   (st\<lparr>calls := calls st @ [GetFids tok 100]\<rparr>);
            (case r of
               Inl x \<Rightarrow> Some (Inl x)
             | Inr st' \<Rightarrow>
                 (case nextPageToken fidsPage of
                    None \<Rightarrow> Some (Inr st')
                  | Some t \<Rightarrow> f env' ts' lf' (Some t) st'))
          }) = Some res"
    show "env' = env \<longrightarrow> ts' = ts \<longrightarrow> lf' = lf \<longrightarrow> P tok st res"
    proof (intro impI)
      assume eqs: "env' = env" "ts' = ts" "lf' = lf"
      show "P tok st res"
      proof (cases "getFids env tok 100")
        case (Inl e)
        with step eqs fetch_failed [OF Inl, of st] show ?thesis by simp
      next
        case (Inr p)
        show ?thesis
        proof (cases "doJobs_fids env ts lf (fids p) (st\<lparr>calls := calls st @ [GetFids tok 100]\<rparr>)")
          case None
          with step eqs Inr show ?thesis by simp
        next
          case (Some r)
          show ?thesis
          proof (cases r)
            case (Inl x)
            with step eqs Inr Some thrown [OF Inr, of st x] show ?thesis by simp
          next
            case r: (Inr st1)
            show ?thesis
            proof (cases "nextPageToken p")
              case None
              with step eqs Inr Some r last_page [OF Inr _ None, of st st1] show ?thesis by simp
            next
              case t: (Some t)
              from step eqs Inr Some r t have "f env ts lf (Some t) st1 = Some res" by simp
              from IH [OF this] have "P (Some t) st1 res" by simp
              from next_page [OF Inr _ t this, of st] Some r show ?thesis by simp
            qed
          qed
        qed
      qed
    qed
  qed
  then show ?thesis by simp
qed

lemma doJobs_pages_processed:
  assumes "doJobs_pages env ts lf tok st = Some res"
  shows "\<forall>st'. res = Inr st' \<longrightarrow>
           (\<exists>ps. fidsPagesFrom env tok ps
              \<and> (\<forall>f. (ForEachIteratorByPrefix f \<in> set (calls st'))
                      = (ForEachIteratorByPrefix f \<in> set (calls st)
                           \<or> (f \<in> set (concat (map fids ps)) \<and> \<not> (0 < lf \<and> f < lf))))
              \<and> (\<forall>f tk. (GetOnChainSignersByFid f tk \<in> set (calls st'))
                      = (GetOnChainSignersByFid f tk \<in> set (calls st)
                           \<or> (tk = None \<and> f \<in> set (concat (map fids ps)) \<and> \<not> (0 < lf \<and> f < lf)))))"
  using assms
proof (induction rule: doJobs_pages_induct)
  case (fetch_failed tok st e)
  show ?case by simp
next
  case (thrown tok st p x)
  show ?case by simp
next
  case (last_page tok st p st1)
  have "fidsPagesFrom env tok [p]"
    using last_page(1,3) by (rule fidsPagesFrom.last_page)
  with doJobs_fids_iterate [OF last_page(2)] doJobs_fids_signers [OF last_page(2)]
  show ?case by (intro allI impI exI [of _ "[p]"]) auto
next
  case (next_page tok st p st1 t res)
  show ?case
  proof (intro allI impI)
    fix st'
    assume res: "res = Inr st'"
    with next_page.IH obtain ps where ps: "fidsPagesFrom env (Some t) ps"
      and it: "\<And>f. (ForEachIteratorByPrefix f \<in> set (calls st'))
                      = (ForEachIteratorByPrefix f \<in> set (calls st1)
                           \<or> (f \<in> set (concat (map fids ps)) \<and> \<not> (0 < lf \<and> f < lf)))"
      and sg: "\<And>f tk. (GetOnChainSignersByFid f tk \<in> set (calls st'))
                      = (GetOnChainSignersByFid f tk \<in> set (calls st1)
                           \<or> (tk = None \<and> f \<in> set (concat (map fids ps)) \<and> \<not> (0 < lf \<and> f < lf)))"
      by blast
    have chain: "fidsPagesFrom env tok (p # ps)"
      using next_page.hyps(1,3) ps by (rule fidsPagesFrom.next_page)
    have "\<And>f. (ForEachIteratorByPrefix f \<in> set (calls st'))
                      = (ForEachIteratorByPrefix f \<in> set (calls st)
                           \<or> (f \<in> set (concat (map fids (p # ps))) \<and> \<not> (0 < lf \<and> f < lf)))"
      using it doJobs_fids_iterate [OF next_page.hyps(2)] by auto
    moreover have "\<And>f tk. (GetOnChainSignersByFid f tk \<in> set (calls st'))
                      = (GetOnChainSignersByFid f tk \<in> set (calls st)
                           \<or> (tk = None \<and> f \<in> set (concat (map fids (p # ps))) \<and> \<not> (0 < lf \<and> f < lf)))"
      using sg doJobs_fids_signers [OF next_page.hyps(2)] by auto
    ultimately show "\<exists>ps. fidsPagesFrom env tok ps
              \<and> (\<forall>f. (ForEachIteratorByPrefix f \<in> set (calls st'))
                      = (ForEachIteratorByPrefix f \<in> set (calls st)
                           \<or> (f \<in> set (concat (map fids ps)) \<and> \<not> (0 < lf \<and> f < lf))))
              \<and> (\<forall>f tk. (GetOnChainSignersByFid f tk \<in> set (calls st'))
                      = (GetOnChainSignersByFid f tk \<in> set (calls st)
                           \<or> (tk = None \<and> f \<in> set (concat (map fids ps)) \<and> \<not> (0 < lf \<and> f < lf))))"
      using chain by blast
  qed
qed

subsection \<open>The username sweep follows the record sweep\<close>

lemma sublist_grows: "sublist xs cs \<Longrightarrow> sublist xs (cs @ ds)"
  unfolding sublist_def by (metis append.assoc)

lemma usernames_follow_getFids:
  assumes "usernames_follow env ts cs"
  shows "usernames_follow env ts (cs @ [GetFids tok n])"
  unfolding usernames_follow_def
proof (intro allI impI)
  fix fid
  assume "GetOnChainSignersByFid fid None \<in> set (cs @ [GetFids tok n])"
  then have "GetOnChainSignersByFid fid None \<in> set cs" by simp
  with assms obtain r cs1 where "doJobForFid env ts fid = Some (r, cs1)"
    "sublist (cs1 @ snd (doUsernamesJobForFid env fid)) cs"
    unfolding usernames_follow_def by blast
  then show "\<exists>r cs1. doJobForFid env ts fid = Some (r, cs1)
           \<and> sublist (cs1 @ snd (doUsernamesJobForFid env fid)) (cs @ [GetFids tok n])"
    using sublist_grows by blast
qed

lemma usernames_follow_entity:
  assumes inv: "usernames_follow env ts cs"
    and j: "doJobForFid env ts fid = Some (r, cs1)"
  shows "usernames_follow env ts (cs @ cs1 @ snd (doUsernamesJobForFid env fid))"
  unfolding usernames_follow_def
proof (intro allI impI)
  fix f
  assume "GetOnChainSignersByFid f None \<in> set (cs @ cs1 @ snd (doUsernamesJobForFid env fid))"
  then consider "GetOnChainSignersByFid f None \<in> set cs" | "f = fid"
    using doJobForFid_calls_signers [OF j] usernames_calls_signers by auto
  then show "\<exists>r cs1'. doJobForFid env ts f = Some (r, cs1')
              \<and> sublist (cs1' @ snd (doUsernamesJobForFid env f))
                   (cs @ cs1 @ snd (doUsernamesJobForFid env fid))"
  proof cases
    case 1
    with inv obtain r' cs' where "doJobForFid env ts f = Some (r', cs')"
      "sublist (cs' @ snd (doUsernamesJobForFid env f)) cs"
      unfolding usernames_follow_def by blast
    then show ?thesis using sublist_grows by blast
  next
    case 2
    have "sublist (cs1 @ snd (doUsernamesJobForFid env fid))
            (cs @ cs1 @ snd (doUsernamesJobForFid env fid))"
      by (rule sublist_append_leftI)
    with j 2 show ?thesis by blast
  qed
qed

lemma doJobs_fids_usernames:
  assumes "doJobs_fids env ts lf fs st = Some res"
    and "usernames_follow env ts (calls st)"
  shows "usernames_follow env ts (calls (final_state res))"
  using assms
proof (induction fs arbitrary: st)
  case Nil
  then show ?case by auto
next
  case (Cons fid rest)
  from doJobs_fids_Cons [OF Cons.prems(1)]
  show ?case
  proof (elim disjE conjE exE)
    assume "0 < lf" "fid < lf" "doJobs_fids env ts lf rest st = Some res"
    from Cons.IH [OF this(3) Cons.prems(2)] show ?thesis .
  next
    fix r cs1 st1 e
    assume j: "doJobForFid env ts fid = Some (r, cs1)"
      and c: "calls st1 = calls st @ cs1 @ snd (doUsernamesJobForFid env fid)"
      and "res = Inl (Thrown e, st1)"
    with usernames_follow_entity [OF Cons.prems(2) j] show ?thesis by simp
  next
    fix r cs1 st1
    assume j: "doJobForFid env ts fid = Some (r, cs1)"
      and c: "calls st1 = calls st @ cs1 @ snd (doUsernamesJobForFid env fid)"
      and rest: "doJobs_fids env ts lf rest st1 = Some res"
    from usernames_follow_entity [OF Cons.prems(2) j] c
    have "usernames_follow env ts (calls st1)" by simp
    from Cons.IH [OF rest this] show ?thesis .
  qed
qed

lemma doJobs_pages_usernames:
  assumes "doJobs_pages env ts lf tok st = Some res"
  shows "usernames_follow env ts (calls st) \<longrightarrow> usernames_follow env ts (calls (final_state res))"
  using assms
proof (induction rule: doJobs_pages_induct)
  case (fetch_failed tok st e)
  show ?case using usernames_follow_getFids by auto
next
  case (thrown tok st p x)
  show ?case
  proof
    assume inv: "usernames_follow env ts (calls st)"
    have "usernames_follow env ts (calls (st\<lparr>calls := calls st @ [GetFids tok 100]\<rparr>))"
      using usernames_follow_getFids [OF inv] by simp
    from doJobs_fids_usernames [OF thrown(2) this]
    show "usernames_follow env ts (calls (final_state (Inl x)))" .
  qed
next
  case (last_page tok st p st1)
  show ?case
  proof
    assume inv: "usernames_follow env ts (calls st)"
    have "usernames_follow env ts (calls (st\<lparr>calls := calls st @ [GetFids tok 100]\<rparr>))"
      using usernames_follow_getFids [OF inv] by simp
    from doJobs_fids_usernames [OF last_page(2) this]
    show "usernames_follow env ts (calls (final_state (Inr st1)))" .
  qed
next
  case (next_page tok st p st1 t res)
  show ?case
  proof
    assume inv: "usernames_follow env ts (calls st)"
    have "usernames_follow env ts (calls (st\<lparr>calls := calls st @ [GetFids tok 100]\<rparr>))"
      using usernames_follow_getFids [OF inv] by simp
    from doJobs_fids_usernames [OF next_page.hyps(2) this]
    have "usernames_follow env ts (calls st1)" by simp
    with next_page.IH show "usernames_follow env ts (calls (final_state res))" by blast
  qed
qed

subsection \<open>The run as a whole\<close>

lemma doJobs_cases:
  assumes "doJobs env s = Some (res, s', cs)"
  shows "(running s \<and> res = Inr 0 \<and> s' = s \<and> cs = [])
       \<or> (\<not> running s \<and> (\<exists>e. getHubState (db s) = Inl e \<and> res = Inl (Returned e) \<and> s' = s \<and> cs = []))
       \<or> (\<not> running s \<and> (\<exists>h r. getHubState (db s) = Inr h
             \<and> doJobs_pages env (case validateOrRevokeState h of None \<Rightarrow> 0 | Some v \<Rightarrow> lastJobTimestamp v)
                  (case validateOrRevokeState h of None \<Rightarrow> 0 | Some v \<Rightarrow> lastFid v) None
                  \<lparr>totalMessagesChecked = 0, totalFidsChecked = 0, store = db s, calls = []\<rparr> = Some r
             \<and> cs = calls (final_state r)
             \<and> ((\<exists>f. r = Inl (f, final_state r) \<and> res = Inl f \<and> s' = s\<lparr>running := True, db := store (final_state r)\<rparr>)
                \<or> (\<exists>e. r = Inr (final_state r) \<and> getHubState (store (final_state r)) = Inl e
                       \<and> res = Inl (Thrown e) \<and> s' = s\<lparr>running := True, db := store (final_state r)\<rparr>)
                \<or> (\<exists>h'. r = Inr (final_state r) \<and> getHubState (store (final_state r)) = Inr h'
                       \<and> res = Inr (totalMessagesChecked (final_state r))
                       \<and> s' = s\<lparr>db := putHubState (store (final_state r))
                                     (h'\<lparr>validateOrRevokeState :=
                                        Some \<lparr>lastFid = 0,
                                              lastJobTimestamp =
                                                unwrapOr (toFarcasterTime env (dateNow env)) 0\<rparr>\<rparr>),
                                 running := False\<rparr>))))"
proof (cases "running s")
  case True
  with assms show ?thesis by (simp add: doJobs_def)
next
  case False
  show ?thesis
  proof (cases "getHubState (db s)")
    case (Inl e)
    with assms False show ?thesis by (simp add: doJobs_def)
  next
    case (Inr h)
    show ?thesis
    proof (cases "doJobs_pages env (case validateOrRevokeState h of None \<Rightarrow> 0 | Some v \<Rightarrow> lastJobTimestamp v)
                  (case validateOrRevokeState h of None \<Rightarrow> 0 | Some v \<Rightarrow> lastFid v) None
                  \<lparr>totalMessagesChecked = 0, totalFidsChecked = 0, store = db s, calls = []\<rparr>")
      case None
      with assms False Inr show ?thesis by (simp add: doJobs_def Let_def)
    next
      case (Some r)
      show ?thesis
      proof (cases r)
        case (Inl x)
        obtain f st where x: "x = (f, st)" by (cases x)
        from assms False Inr Some Inl x show ?thesis
          by (simp add: doJobs_def Let_def)
      next
        case r: (Inr st)
        show ?thesis
        proof (cases "getHubState (store st)")
          case (Inl e)
          with assms False Inr Some r show ?thesis
            by (simp add: doJobs_def Let_def)
        next
          case h': (Inr h')
          with assms False Inr Some r show ?thesis
            by (simp add: doJobs_def Let_def)
        qed
      qed
    qed
  qed
qed

lemma doJobs_success:
  assumes "doJobs env s = Some (Inr n, s', cs)" and "\<not> running s"
  obtains h st h' where "getHubState (db s) = Inr h"
    and "doJobs_pages env (case validateOrRevokeState h of None \<Rightarrow> 0 | Some v \<Rightarrow> lastJobTimestamp v)
                  (case validateOrRevokeState h of None \<Rightarrow> 0 | Some v \<Rightarrow> lastFid v) None
                  \<lparr>totalMessagesChecked = 0, totalFidsChecked = 0, store = db s, calls = []\<rparr> = Some (Inr st)"
    and "getHubState (store st) = Inr h'"
    and "n = totalMessagesChecked st" and "cs = calls st"
    and "s' = s\<lparr>db := putHubState (store st)
                                     (h'\<lparr>validateOrRevokeState :=
                                        Some \<lparr>lastFid = 0,
                                              lastJobTimestamp =
                                                unwrapOr (toFarcasterTime env (dateNow env)) 0\<rparr>\<rparr>),
                                 running := False\<rparr>"
proof (cases "getHubState (db s)")
  case (Inl e)
  with assms show ?thesis by (simp add: doJobs_def)
next
  case (Inr h)
  show ?thesis
  proof (cases "doJobs_pages env (case validateOrRevokeState h of None \<Rightarrow> 0 | Some v \<Rightarrow> lastJobTimestamp v)
                  (case validateOrRevokeState h of None \<Rightarrow> 0 | Some v \<Rightarrow> lastFid v) None
                  \<lparr>totalMessagesChecked = 0, totalFidsChecked = 0, store = db s, calls = []\<rparr>")
    case None
    with assms Inr show ?thesis by (simp add: doJobs_def Let_def)
  next
    case (Some r)
    show ?thesis
    proof (cases r)
      case (Inl x)
      obtain f st where x: "x = (f, st)" by (cases x)
      from assms Inr Some Inl x show ?thesis
        by (simp add: doJobs_def Let_def)
    next
      case r: (Inr st)
      show ?thesis
      proof (cases "getHubState (store st)")
        case (Inl e)
        with assms Inr Some r show ?thesis
          by (simp add: doJobs_def Let_def)
      next
        case h': (Inr h')
        from assms Inr Some r h' have "n = totalMessagesChecked st" "cs = calls st"
          "s' = s\<lparr>db := putHubState (store st)
                                     (h'\<lparr>validateOrRevokeState :=
                                        Some \<lparr>lastFid = 0,
                                              lastJobTimestamp =
                                                unwrapOr (toFarcasterTime env (dateNow env)) 0\<rparr>\<rparr>),
                                 running := False\<rparr>"
          by (simp_all add: doJobs_def Let_def)
        with that [OF Inr _ h'] Some r show ?thesis by blast
      qed
    qed
  qed
qed

lemma doJobs_keeps_cronTask:
  assumes "doJobs env s = Some (res, s', cs)"
  shows "cronTask s' = cronTask s"
  using doJobs_cases [OF assms] by auto

lemma reaches_keeps_task:
  assumes "reaches env s1 s2" "cronTask s1 \<noteq> None"
  shows "cronTask s2 \<noteq> None"
  using assms
proof (induction rule: reaches.induct)
  case (here env s)
  then show ?case by simp
next
  case (by_start env s s1 c s2)
  then show ?case by (auto simp: start_def split: sum.splits)
next
  case (by_stop env s s1)
  then show ?case by (auto simp: stop_def split: option.splits)
next
  case (by_doJobs env s s1 r s2 cs)
  then show ?case using doJobs_keeps_cronTask by metis
qed

text \<open>
  Claim C10. Once \<^verbatim>\<open>start\<close> has registered a task, \<^verbatim>\<open>status\<close> answers
  ``started'' from then on: right after the call, after \<^verbatim>\<open>stop\<close> (which leaves the task
  registered and only marks it as no longer firing), and in every scheduler reached by
  further calls of \<^verbatim>\<open>start\<close>, \<^verbatim>\<open>stop\<close> and \<^verbatim>\<open>doJobs\<close>.
\<close>

theorem status_started_forever:
  assumes "start env c s = Inr s1"
  shows "status s1 = Started
       \<and> (\<exists>t. cronTask (stop s1) = Some t \<and> \<not> scheduled t) \<and> status (stop s1) = Started
       \<and> (\<forall>s2. reaches env s1 s2 \<longrightarrow> status s2 = Started)"
proof -
  from assms have t: "cronTask s1 \<noteq> None"
    by (auto simp: start_def split: sum.splits)
  then have "status s1 = Started" by (simp add: status_def)
  moreover from t have "\<exists>t. cronTask (stop s1) = Some t \<and> \<not> scheduled t"
    by (auto simp: stop_def)
  moreover from this have "status (stop s1) = Started" by (auto simp: status_def)
  moreover have "\<forall>s2. reaches env s1 s2 \<longrightarrow> status s2 = Started"
    using reaches_keeps_task [OF _ t] by (auto simp: status_def)
  ultimately show ?thesis by blast
qed

text \<open>
  The guard of lines 46 to 49. A \<^verbatim>\<open>doJobs\<close> that finds the flag \<^verbatim>\<open>_running\<close> set
  returns \<^verbatim>\<open>ok(0)\<close>,
  leaves the scheduler and the store as they are and calls no collaborator: it starts no
  second scan.
\<close>

theorem doJobs_while_running_is_noop:
  "running s \<Longrightarrow> doJobs env s = Some (Inr 0, s, [])"
  by (simp add: doJobs_def)

text \<open>
  The skip of lines 168 to 170. When the signer events of an entity have been fetched
  and the newest of
  them, in Farcaster time, is strictly before \<^verbatim>\<open>lastJobTimestamp\<close>, \<^verbatim>\<open>doJobForFid\<close>
  returns \<^verbatim>\<open>ok(0)\<close> and its only call is the signer fetch: no iteration over the store,
  no decoding, no validation.
\<close>

theorem doJobForFid_skips_unchanged_entity:
  assumes "doJobForFid_signers env fid None [] [] = Some (Inr allSigners, cs)"
    and "latestSignerEventTs env allSigners < ts"
  shows "doJobForFid env ts fid = Some (Inr 0, [GetOnChainSignersByFid fid None])"
  using assms signers_calls [OF assms(1)] by (simp add: doJobForFid_def)

text \<open>Without signer events the newest time is what the conversion of 0 gives, or 0.\<close>

lemma latestSignerEventTs_no_events:
  "latestSignerEventTs env [] = unwrapOr (toFarcasterTime env 0) 0"
  by (simp add: latestSignerEventTs_def)

text \<open>
  Claim C7. A \<^verbatim>\<open>doJobs\<close> that starts a run and returns \<^verbatim>\<open>ok\<close> has reached the last
  page of entities, and leaves in the store the checkpoint \<^verbatim>\<open>lastFid = 0\<close>,
  \<^verbatim>\<open>lastJobTimestamp = toFarcasterTime(start).unwrapOr(0)\<close>, where \<^verbatim>\<open>start\<close> is the
  clock reading at the start of the run; the flag \<^verbatim>\<open>_running\<close> is cleared.
\<close>

theorem doJobs_terminal_checkpoint:
  assumes "doJobs env s = Some (Inr n, s', cs)" and "\<not> running s"
  shows "(\<exists>ps. fidsPagesFrom env None ps)
       \<and> (\<exists>h. getHubState (db s') = Inr h
             \<and> validateOrRevokeState h
                 = Some \<lparr>lastFid = 0,
                         lastJobTimestamp = unwrapOr (toFarcasterTime env (dateNow env)) 0\<rparr>)
       \<and> \<not> running s'"
proof -
  from assms obtain h st h' where "getHubState (db s) = Inr h"
    and p: "doJobs_pages env (case validateOrRevokeState h of None \<Rightarrow> 0 | Some v \<Rightarrow> lastJobTimestamp v)
                  (case validateOrRevokeState h of None \<Rightarrow> 0 | Some v \<Rightarrow> lastFid v) None
                  \<lparr>totalMessagesChecked = 0, totalFidsChecked = 0, store = db s, calls = []\<rparr> = Some (Inr st)"
    and "getHubState (store st) = Inr h'"
    and "n = totalMessagesChecked st" and "cs = calls st"
    and s': "s' = s\<lparr>db := putHubState (store st)
                                     (h'\<lparr>validateOrRevokeState :=
                                        Some \<lparr>lastFid = 0,
                                              lastJobTimestamp =
                                                unwrapOr (toFarcasterTime env (dateNow env)) 0\<rparr>\<rparr>),
                                 running := False\<rparr>"
    by (rule doJobs_success)
  from doJobs_pages_processed [OF p] have "\<exists>ps. fidsPagesFrom env None ps" by blast
  moreover from s' have "\<exists>h. getHubState (db s') = Inr h
             \<and> validateOrRevokeState h
                 = Some \<lparr>lastFid = 0,
                         lastJobTimestamp = unwrapOr (toFarcasterTime env (dateNow env)) 0\<rparr>"
    by (simp add: getHubState_def putHubState_def)
  moreover from s' have "\<not> running s'" by simp
  ultimately show ?thesis by blast
qed

text \<open>
  Claim C9. A key whose length is not \<^verbatim>\<open>1 + FID_BYTES + 1 + TSHASH_LENGTH\<close>, or whose
  tag byte is above \<^verbatim>\<open>UserMessagePostfixMax\<close>, is skipped by the callback of the record
  sweep: the count and the calls stay as they were, and no sweep of \<^verbatim>\<open>doJobForFid\<close>
  decodes it. The same holds for the username sweep, whose two tags lie within the
  maximum.
\<close>

theorem record_sweep_skips_non_message_keys:
  assumes "length key \<noteq> 1 + FID_BYTES env + 1 + TSHASH_LENGTH env
           \<or> UserMessagePostfixMax env < unat (key ! (1 + FID_BYTES env))"
  shows "doJobForFid_callback env acc (key, val) = acc
       \<and> (\<forall>ts fid r cs. doJobForFid env ts fid = Some (r, cs) \<longrightarrow> MessageDecode key val \<notin> set cs)
       \<and> (UsernameProofMessage env \<le> UserMessagePostfixMax env
            \<and> UserDataMessage env \<le> UserMessagePostfixMax env \<longrightarrow>
            doUsernamesJobForFid_callback env acc (key, val) = acc
            \<and> (\<forall>fid. MessageDecode key val \<notin> set (snd (doUsernamesJobForFid env fid))))"
proof (intro conjI allI impI)
  show "doJobForFid_callback env acc (key, val) = acc"
    using assms by (cases acc) auto
next
  fix ts fid r cs
  assume "doJobForFid env ts fid = Some (r, cs)"
  from doJobForFid_cases [OF this] assms
  show "MessageDecode key val \<notin> set cs"
    by (auto simp: job_callback_calls simp del: doJobForFid_callback.simps split: if_splits sum.splits)
next
  assume "UsernameProofMessage env \<le> UserMessagePostfixMax env
            \<and> UserDataMessage env \<le> UserMessagePostfixMax env"
  with assms show "doUsernamesJobForFid_callback env acc (key, val) = acc"
    by (cases acc) auto
next
  fix fid
  assume "UsernameProofMessage env \<le> UserMessagePostfixMax env
            \<and> UserDataMessage env \<le> UserMessagePostfixMax env"
  with assms show "MessageDecode key val \<notin> set (snd (doUsernamesJobForFid env fid))"
    by (auto simp: doUsernamesJobForFid_calls usernames_callback_calls
             simp del: doUsernamesJobForFid_callback.simps split: if_splits sum.splits)
qed

lemma doJobs_pages_returned_err_call:
  assumes "doJobs_pages env ts lf tok st = Some res"
  shows "\<forall>e st'. res = Inl (Returned e, st') \<longrightarrow>
           (\<exists>tok'. getFids env tok' 100 = Inl e \<and> GetFids tok' 100 \<in> set (calls st'))"
  using assms
proof (induction rule: doJobs_pages_induct)
  case (fetch_failed tok st e')
  then show ?case by auto
next
  case (thrown tok st p x)
  then show ?case using doJobs_fids_never_returns_err by blast
next
  case (last_page tok st p st1)
  show ?case by simp
next
  case (next_page tok st p st1 t res)
  then show ?case by simp
qed

text \<open>
  The resume filter of line 87. In a run that resumes from a checkpoint
  \<^verbatim>\<open>lastFid = X > 0\<close> and completes,
  the entities swept are exactly those that the entity source returns on some page and
  that are at least \<open>X\<close>: for each of them the signer events are requested and the
  store is iterated, and for an entity below \<open>X\<close> neither happens. The pages are those the
  source returns during this run, whenever their entities were added.
\<close>

theorem doJobs_resumes_from_lastFid:
  assumes "doJobs env s = Some (Inr n, s', cs)" and "\<not> running s"
    and "getHubState (db s) = Inr h" and "validateOrRevokeState h = Some v"
    and "0 < lastFid v" and "fidsPagesFrom env None ps"
  shows "(ForEachIteratorByPrefix fid \<in> set cs)
           = (fid \<in> set (concat (map fids ps)) \<and> lastFid v \<le> fid)
       \<and> (GetOnChainSignersByFid fid tok \<in> set cs)
           = (tok = None \<and> fid \<in> set (concat (map fids ps)) \<and> lastFid v \<le> fid)"
proof -
  from assms(1,2) obtain h0 st h' where h0: "getHubState (db s) = Inr h0"
    and p: "doJobs_pages env (case validateOrRevokeState h0 of None \<Rightarrow> 0 | Some v \<Rightarrow> lastJobTimestamp v)
                  (case validateOrRevokeState h0 of None \<Rightarrow> 0 | Some v \<Rightarrow> lastFid v) None
                  \<lparr>totalMessagesChecked = 0, totalFidsChecked = 0, store = db s, calls = []\<rparr> = Some (Inr st)"
    and "getHubState (store st) = Inr h'"
    and "n = totalMessagesChecked st" and cs: "cs = calls st"
    and "s' = s\<lparr>db := putHubState (store st)
                                     (h'\<lparr>validateOrRevokeState :=
                                        Some \<lparr>lastFid = 0,
                                              lastJobTimestamp =
                                                unwrapOr (toFarcasterTime env (dateNow env)) 0\<rparr>\<rparr>),
                                 running := False\<rparr>"
    by (rule doJobs_success)
  from h0 assms(3) have "h0 = h" by simp
  with p assms(4) have p': "doJobs_pages env (lastJobTimestamp v) (lastFid v) None
                  \<lparr>totalMessagesChecked = 0, totalFidsChecked = 0, store = db s, calls = []\<rparr> = Some (Inr st)"
    by simp
  from doJobs_pages_processed [OF p'] obtain ps' where ps': "fidsPagesFrom env None ps'"
    and it: "\<And>f. (ForEachIteratorByPrefix f \<in> set (calls st))
                      = (f \<in> set (concat (map fids ps')) \<and> \<not> (0 < lastFid v \<and> f < lastFid v))"
    and sg: "\<And>f tk. (GetOnChainSignersByFid f tk \<in> set (calls st))
                      = (tk = None \<and> f \<in> set (concat (map fids ps')) \<and> \<not> (0 < lastFid v \<and> f < lastFid v))"
    by auto
  from fidsPagesFrom_unique [OF ps' assms(6)] have "ps' = ps" .
  with it [of fid] sg [of fid tok] cs assms(5) show ?thesis by auto
qed

lemma usernames_entry_decodes:
  "(MessageDecode key val \<in> set (snd (doUsernamesJobForFid_callback env (0, []) (k, v))))
     = (key = k \<and> val = v
        \<and> length key = 1 + FID_BYTES env + 1 + TSHASH_LENGTH env
        \<and> (unat (key ! (1 + FID_BYTES env)) = UsernameProofMessage env
             \<or> unat (key ! (1 + FID_BYTES env)) = UserDataMessage env))"
  by (auto simp: usernames_callback_calls simp del: doUsernamesJobForFid_callback.simps
           split: sum.splits)

lemma usernames_entry_validates:
  "(ValidateOrRevokeMessage m \<in> set (snd (doUsernamesJobForFid_callback env (0, []) (k, v))))
     = (length k = 1 + FID_BYTES env + 1 + TSHASH_LENGTH env
        \<and> (unat (k ! (1 + FID_BYTES env)) = UsernameProofMessage env
             \<or> unat (k ! (1 + FID_BYTES env)) = UserDataMessage env)
        \<and> messageDecode env v = Inr m)"
  by (auto simp: usernames_callback_calls simp del: doUsernamesJobForFid_callback.simps
           split: sum.splits)

lemma usernames_sweep_decodes:
  "(MessageDecode key val \<in> set (snd (doUsernamesJobForFid env fid)))
     = ((key, val) \<in> set (userEntries env fid)
        \<and> length key = 1 + FID_BYTES env + 1 + TSHASH_LENGTH env
        \<and> (unat (key ! (1 + FID_BYTES env)) = UsernameProofMessage env
             \<or> unat (key ! (1 + FID_BYTES env)) = UserDataMessage env))"
proof -
  have "(MessageDecode key val \<in> set (snd (doUsernamesJobForFid env fid)))
      = (\<exists>e \<in> set (userEntries env fid).
           MessageDecode key val \<in> set (snd (doUsernamesJobForFid_callback env (0, []) e)))"
    by (simp add: doUsernamesJobForFid_calls del: doUsernamesJobForFid_callback.simps)
  also have "\<dots> = (\<exists>k v. (k, v) \<in> set (userEntries env fid)
           \<and> MessageDecode key val \<in> set (snd (doUsernamesJobForFid_callback env (0, []) (k, v))))"
    by (auto simp del: doUsernamesJobForFid_callback.simps)
  also have "\<dots> = ((key, val) \<in> set (userEntries env fid)
        \<and> length key = 1 + FID_BYTES env + 1 + TSHASH_LENGTH env
        \<and> (unat (key ! (1 + FID_BYTES env)) = UsernameProofMessage env
             \<or> unat (key ! (1 + FID_BYTES env)) = UserDataMessage env))"
    unfolding usernames_entry_decodes by blast
  finally show ?thesis .
qed

lemma usernames_sweep_validates:
  "(ValidateOrRevokeMessage m \<in> set (snd (doUsernamesJobForFid env fid)))
     = (\<exists>key val. (key, val) \<in> set (userEntries env fid)
        \<and> length key = 1 + FID_BYTES env + 1 + TSHASH_LENGTH env
        \<and> (unat (key ! (1 + FID_BYTES env)) = UsernameProofMessage env
             \<or> unat (key ! (1 + FID_BYTES env)) = UserDataMessage env)
        \<and> messageDecode env val = Inr m)"
proof -
  have "(ValidateOrRevokeMessage m \<in> set (snd (doUsernamesJobForFid env fid)))
      = (\<exists>e \<in> set (userEntries env fid).
           ValidateOrRevokeMessage m \<in> set (snd (doUsernamesJobForFid_callback env (0, []) e)))"
    by (simp add: doUsernamesJobForFid_calls del: doUsernamesJobForFid_callback.simps)
  also have "\<dots> = (\<exists>k v. (k, v) \<in> set (userEntries env fid)
           \<and> ValidateOrRevokeMessage m \<in> set (snd (doUsernamesJobForFid_callback env (0, []) (k, v))))"
    by (auto simp del: doUsernamesJobForFid_callback.simps)
  finally show ?thesis unfolding usernames_entry_validates by blast
qed

text \<open>
  The username sweep of line 92. In every \<^verbatim>\<open>doJobs\<close> that returns, for every entity
  whose signer events
  were requested, the calls of \<^verbatim>\<open>doJobForFid\<close>, whatever it returned, are followed at
  once by the calls of \<^verbatim>\<open>doUsernamesJobForFid\<close>, which takes no timestamp. That sweep
  decodes only values under keys of the fixed length whose tag byte is the username
  proof tag or the user data tag, and validates only messages it has decoded.
\<close>

theorem usernames_sweep_unconditional:
  assumes "doJobs env s = Some (res, s', cs)" and "getHubState (db s) = Inr h"
    and "GetOnChainSignersByFid fid None \<in> set cs"
  shows "(\<exists>r cs1. doJobForFid env (case validateOrRevokeState h of None \<Rightarrow> 0
                                      | Some v \<Rightarrow> lastJobTimestamp v) fid = Some (r, cs1)
            \<and> sublist (cs1 @ snd (doUsernamesJobForFid env fid)) cs)
       \<and> (\<forall>key val. MessageDecode key val \<in> set (snd (doUsernamesJobForFid env fid)) \<longrightarrow>
            length key = 1 + FID_BYTES env + 1 + TSHASH_LENGTH env
            \<and> (unat (key ! (1 + FID_BYTES env)) = UsernameProofMessage env
                 \<or> unat (key ! (1 + FID_BYTES env)) = UserDataMessage env))
       \<and> (\<forall>m. ValidateOrRevokeMessage m \<in> set (snd (doUsernamesJobForFid env fid)) \<longrightarrow>
            (\<exists>key val. MessageDecode key val \<in> set (snd (doUsernamesJobForFid env fid))
                \<and> messageDecode env val = Inr m))"
proof (intro conjI allI impI)
  from doJobs_cases [OF assms(1)] assms(2,3)
  obtain r where p: "doJobs_pages env (case validateOrRevokeState h of None \<Rightarrow> 0 | Some v \<Rightarrow> lastJobTimestamp v)
                  (case validateOrRevokeState h of None \<Rightarrow> 0 | Some v \<Rightarrow> lastFid v) None
                  \<lparr>totalMessagesChecked = 0, totalFidsChecked = 0, store = db s, calls = []\<rparr> = Some r"
    and cs: "cs = calls (final_state r)"
    by auto
  have "usernames_follow env (case validateOrRevokeState h of None \<Rightarrow> 0 | Some v \<Rightarrow> lastJobTimestamp v) []"
    by (simp add: usernames_follow_def)
  with doJobs_pages_usernames [OF p]
  have "usernames_follow env (case validateOrRevokeState h of None \<Rightarrow> 0 | Some v \<Rightarrow> lastJobTimestamp v) cs"
    by (simp add: cs)
  with assms(3)
  show "\<exists>r cs1. doJobForFid env (case validateOrRevokeState h of None \<Rightarrow> 0
                                      | Some v \<Rightarrow> lastJobTimestamp v) fid = Some (r, cs1)
            \<and> sublist (cs1 @ snd (doUsernamesJobForFid env fid)) cs"
    unfolding usernames_follow_def by blast
next
  fix key val
  assume "MessageDecode key val \<in> set (snd (doUsernamesJobForFid env fid))"
  then show "length key = 1 + FID_BYTES env + 1 + TSHASH_LENGTH env"
    by (simp only: usernames_sweep_decodes)
next
  fix key val
  assume "MessageDecode key val \<in> set (snd (doUsernamesJobForFid env fid))"
  then show "unat (key ! (1 + FID_BYTES env)) = UsernameProofMessage env
                 \<or> unat (key ! (1 + FID_BYTES env)) = UserDataMessage env"
    by (simp only: usernames_sweep_decodes)
next
  fix m
  assume "ValidateOrRevokeMessage m \<in> set (snd (doUsernamesJobForFid env fid))"
  then show "\<exists>key val. MessageDecode key val \<in> set (snd (doUsernamesJobForFid env fid))
                \<and> messageDecode env val = Inr m"
    unfolding usernames_sweep_validates usernames_sweep_decodes by blast
qed

text \<open>
  Claim C1, as amended. An error of \<^verbatim>\<open>doJobForFid\<close> does not end the run: the loop
  counts zero records for that sweep, adds what the username sweep of the entity
  counted, and goes on with the remaining entities (shown between two progress
  checkpoints). An error that \<^verbatim>\<open>doJobs\<close> returns is the error of the checkpoint read or
  of a fetch of a page of entities that the run has made.
\<close>

theorem doJobs_continues_after_signer_fetch_error:
  "(doJobs env s = Some (Inl (Returned e), s', cs) \<longrightarrow>
      getHubState (db s) = Inl e \<or> (\<exists>tok. getFids env tok 100 = Inl e \<and> GetFids tok 100 \<in> set cs))
   \<and> (doJobForFid env ts fid = Some (Inl e', cs1) \<and> \<not> (0 < lf \<and> fid < lf)
        \<and> Suc (totalFidsChecked st) mod 5000 \<noteq> 0 \<longrightarrow>
      doJobs_fids env ts lf (fid # rest) st
        = doJobs_fids env ts lf rest
            (st\<lparr>totalMessagesChecked :=
                   totalMessagesChecked st + unwrapOr (fst (doUsernamesJobForFid env fid)) 0,
                 totalFidsChecked := totalFidsChecked st + 1,
                 calls := calls st @ cs1 @ snd (doUsernamesJobForFid env fid)\<rparr>))"
proof (intro conjI impI)
  assume run: "doJobs env s = Some (Inl (Returned e), s', cs)"
  from doJobs_cases [OF run]
  show "getHubState (db s) = Inl e \<or> (\<exists>tok. getFids env tok 100 = Inl e \<and> GetFids tok 100 \<in> set cs)"
  proof (elim disjE conjE exE)
    fix h r f
    assume p: "doJobs_pages env (case validateOrRevokeState h of None \<Rightarrow> 0 | Some v \<Rightarrow> lastJobTimestamp v)
                  (case validateOrRevokeState h of None \<Rightarrow> 0 | Some v \<Rightarrow> lastFid v) None
                  \<lparr>totalMessagesChecked = 0, totalFidsChecked = 0, store = db s, calls = []\<rparr> = Some r"
      and "cs = calls (final_state r)" "r = Inl (f, final_state r)" "Inl (Returned e) = Inl f"
    with doJobs_pages_returned_err_call [OF p] show ?thesis by auto
  qed auto
next
  assume a: "doJobForFid env ts fid = Some (Inl e', cs1) \<and> \<not> (0 < lf \<and> fid < lf)
        \<and> Suc (totalFidsChecked st) mod 5000 \<noteq> 0"
  then show "doJobs_fids env ts lf (fid # rest) st
        = doJobs_fids env ts lf rest
            (st\<lparr>totalMessagesChecked :=
                   totalMessagesChecked st + unwrapOr (fst (doUsernamesJobForFid env fid)) 0,
                 totalFidsChecked := totalFidsChecked st + 1,
                 calls := calls st @ cs1 @ snd (doUsernamesJobForFid env fid)\<rparr>)"
    by (cases "doUsernamesJobForFid env fid") (auto simp: Let_def)
qed

subsection \<open>The pieces of the run\<close>

text \<open>
  The pieces compose to \<^verbatim>\<open>doJobs\<close>. A call that finds the flag clear is suspended with
  the flag still clear, and the piece that sets the flag does not test it.
\<close>

lemma doJobs_phases:
  "doJobs env s =
     (case doJobs_enter s of
        Returns r \<Rightarrow> Some (r, s, [])
      | Awaits hubStateResult \<Rightarrow>
          (case doJobs_start env hubStateResult s of
             (Returns r, s') \<Rightarrow> Some (r, s', [])
           | (Awaits locals, s1) \<Rightarrow> doJobs_scan env locals s1))"
  by (simp add: doJobs_def doJobs_enter_def doJobs_start_def doJobs_scan_def Let_def
           split: sum.splits)

lemma doJobs_start_ignores_flag:
  "fst (doJobs_start env hubStateResult (s\<lparr>running := b\<rparr>)) = fst (doJobs_start env hubStateResult s)"
  by (simp add: doJobs_start_def split: sum.splits)

lemma doJobs_enter_before_flag:
  "\<not> running s \<Longrightarrow> doJobs_enter s = Awaits (getHubState (db s))"
  by (simp add: doJobs_enter_def)

subsection \<open>When a run returns\<close>

text \<open>
  \<^verbatim>\<open>doJobForFid\<close> returns when the first page of signer events names no next page (or
  its fetch fails), and a run returns \<^verbatim>\<open>ok\<close> when the hub state is there, the pages of
  entities end and that holds for every entity on them. An entity that is not skipped and
  whose signer fetch does not return stops the loop for good.
\<close>

lemma doJobForFid_returns:
  assumes "\<And>p t. getOnChainSignersByFid env fid None = Inr p \<Longrightarrow> signersNextPageToken p \<noteq> Some t"
  shows "\<exists>r cs. doJobForFid env ts fid = Some (r, cs)"
proof (cases "getOnChainSignersByFid env fid None")
  case (Inl e)
  from signers_error [OF Inl] show ?thesis by (simp add: doJobForFid_def)
next
  case (Inr p)
  with assms have "signersNextPageToken p = None" by (cases "signersNextPageToken p") auto
  from signers_last_page [OF Inr this] show ?thesis
    by (simp add: doJobForFid_def split: prod.splits)
qed

lemma doJobs_fids_returns:
  assumes "\<And>fid. fid \<in> set fs \<Longrightarrow> \<not> (0 < lf \<and> fid < lf) \<Longrightarrow> doJobForFid env ts fid \<noteq> None"
    and "hubStateEntry (store st) \<noteq> None"
  shows "\<exists>st'. doJobs_fids env ts lf fs st = Some (Inr st') \<and> hubStateEntry (store st') \<noteq> None"
  using assms
proof (induction fs arbitrary: st)
  case Nil
  then show ?case by simp
next
  case (Cons fid rest)
  have rest: "\<And>st1. hubStateEntry (store st1) \<noteq> None \<Longrightarrow>
          \<exists>st'. doJobs_fids env ts lf rest st1 = Some (Inr st') \<and> hubStateEntry (store st') \<noteq> None"
    using Cons.IH Cons.prems(1) by simp
  show ?case
  proof (cases "0 < lf \<and> fid < lf")
    case True
    with rest [OF Cons.prems(2)] show ?thesis by simp
  next
    case False
    with Cons.prems(1) [of fid] obtain r cs1 where j: "doJobForFid env ts fid = Some (r, cs1)"
      by auto
    obtain u cs2 where u: "doUsernamesJobForFid env fid = (u, cs2)"
      by (cases "doUsernamesJobForFid env fid")
    define st1 where "st1 = st\<lparr>totalMessagesChecked :=
                               totalMessagesChecked st + (unwrapOr r 0 + unwrapOr u 0),
                             totalFidsChecked := totalFidsChecked st + 1,
                             calls := calls st @ cs1 @ cs2\<rparr>"
    have s1: "hubStateEntry (store st1) \<noteq> None" using Cons.prems(2) by (simp add: st1_def)
    show ?thesis
    proof (cases "totalFidsChecked st1 mod 5000 = 0")
      case no: False
      with False j u have "doJobs_fids env ts lf (fid # rest) st = doJobs_fids env ts lf rest st1"
        by (auto simp: st1_def Let_def)
      with rest [OF s1] show ?thesis by simp
    next
      case True
      from s1 obtain h where h: "getHubState (store st1) = Inr h"
        by (auto simp: getHubState_def)
      define st2 where "st2 = st1\<lparr>store := putHubState (store st1)
                 (h\<lparr>validateOrRevokeState := Some \<lparr>lastFid = fid, lastJobTimestamp = ts\<rparr>\<rparr>)\<rparr>"
      have s2: "hubStateEntry (store st2) \<noteq> None" by (simp add: st2_def putHubState_def)
      from False j u True h have "doJobs_fids env ts lf (fid # rest) st = doJobs_fids env ts lf rest st2"
        by (auto simp: st1_def st2_def Let_def)
      with rest [OF s2] show ?thesis by simp
    qed
  qed
qed

lemma doJobs_pages_returns:
  assumes "fidsPagesFrom env tok ps"
    and "\<And>fid. fid \<in> set (concat (map fids ps)) \<Longrightarrow> \<not> (0 < lf \<and> fid < lf)
            \<Longrightarrow> doJobForFid env ts fid \<noteq> None"
    and "hubStateEntry (store st) \<noteq> None"
  shows "\<exists>st'. doJobs_pages env ts lf tok st = Some (Inr st') \<and> hubStateEntry (store st') \<noteq> None"
  using assms
proof (induction arbitrary: st rule: fidsPagesFrom.induct)
  case (last_page env tok p)
  have "hubStateEntry (store (st\<lparr>calls := calls st @ [GetFids tok 100]\<rparr>)) \<noteq> None"
    using last_page.prems(2) by simp
  from doJobs_fids_returns [of "fids p" lf env ts, OF _ this] last_page.prems(1)
  obtain st' where "doJobs_fids env ts lf (fids p) (st\<lparr>calls := calls st @ [GetFids tok 100]\<rparr>) = Some (Inr st')"
    "hubStateEntry (store st') \<noteq> None" by auto
  with last_page.hyps show ?case
    by (subst doJobs_pages.simps) simp
next
  case (next_page env tok p t ps)
  have "hubStateEntry (store (st\<lparr>calls := calls st @ [GetFids tok 100]\<rparr>)) \<noteq> None"
    using next_page.prems(2) by simp
  from doJobs_fids_returns [of "fids p" lf env ts, OF _ this] next_page.prems(1)
  obtain st1 where 1: "doJobs_fids env ts lf (fids p) (st\<lparr>calls := calls st @ [GetFids tok 100]\<rparr>) = Some (Inr st1)"
    "hubStateEntry (store st1) \<noteq> None" by auto
  from next_page.IH [OF _ 1(2)] next_page.prems(1)
  obtain st' where 2: "doJobs_pages env ts lf (Some t) st1 = Some (Inr st')"
    "hubStateEntry (store st') \<noteq> None" by auto
  from next_page.hyps(1,2) 1 2 show ?case
    by (subst doJobs_pages.simps) simp
qed

lemma doJobs_returns:
  assumes "\<not> running s" and "getHubState (db s) = Inr h" and "fidsPagesFrom env None ps"
    and "\<And>fid p t. fid \<in> set (concat (map fids ps))
            \<Longrightarrow> getOnChainSignersByFid env fid None = Inr p \<Longrightarrow> signersNextPageToken p \<noteq> Some t"
  shows "\<exists>n s' cs. doJobs env s = Some (Inr n, s', cs)"
proof -
  let ?ts = "case validateOrRevokeState h of None \<Rightarrow> 0 | Some v \<Rightarrow> lastJobTimestamp v"
  let ?lf = "case validateOrRevokeState h of None \<Rightarrow> 0 | Some v \<Rightarrow> lastFid v"
  have j: "\<And>fid. fid \<in> set (concat (map fids ps)) \<Longrightarrow> \<not> (0 < ?lf \<and> fid < ?lf)
            \<Longrightarrow> doJobForFid env ?ts fid \<noteq> None"
    using doJobForFid_returns [of env _ ?ts] assms(4) by (metis option.distinct(1))
  from assms(2) have "hubStateEntry (store \<lparr>totalMessagesChecked = 0, totalFidsChecked = 0,
                         store = db s, calls = []\<rparr>) \<noteq> None"
    by (auto simp: getHubState_def split: option.splits)
  from doJobs_pages_returns [OF assms(3) j this]
  obtain st' where p: "doJobs_pages env ?ts ?lf None
         \<lparr>totalMessagesChecked = 0, totalFidsChecked = 0, store = db s, calls = []\<rparr> = Some (Inr st')"
    and "hubStateEntry (store st') \<noteq> None" by blast
  then obtain h' where "getHubState (store st') = Inr h'" by (auto simp: getHubState_def)
  with assms(1,2) p show ?thesis by (simp add: doJobs_def Let_def)
qed

lemma doJobs_fids_hangs:
  "doJobForFid env ts fid = None \<Longrightarrow> \<not> (0 < lf \<and> fid < lf)
     \<Longrightarrow> doJobs_fids env ts lf (fid # rest) st = None"
  by auto

section \<open>The example hub, evaluated\<close>

declare doJobForFid_callback.simps [simp del] doUsernamesJobForFid_callback.simps [simp del]

lemma ex_env_fields:
  "getFids (ex_env faults) = (\<lambda>tok size.
          if tok = None then Inr \<lparr>fids = [10, 20], nextPageToken = Some [1]\<rparr>
          else if tok = Some [1] \<and> SecondPageFails \<notin> set faults
            then Inr \<lparr>fids = [30], nextPageToken = None\<rparr>
          else Inl ex_page_error)"
  "getOnChainSignersByFid (ex_env faults) = (\<lambda>fid tok.
          if fid = 10 \<and> SignerFetchFails \<in> set faults then Inl ex_error
          else if fid = 20 \<and> SignersPaged \<in> set faults then
            (if tok = None
             then Inr \<lparr>events = [\<lparr>blockTimestamp = 1609459300\<rparr>],
                       signersNextPageToken = Some [7]\<rparr>
             else Inr \<lparr>events = [\<lparr>blockTimestamp = 1609459250\<rparr>],
                       signersNextPageToken = None\<rparr>)
          else if fid = 20 then
            Inr \<lparr>events = [\<lparr>blockTimestamp = 1609459300\<rparr>, \<lparr>blockTimestamp = 1609459250\<rparr>],
                 signersNextPageToken = None\<rparr>
          else Inr \<lparr>events = [], signersNextPageToken = None\<rparr>)"
  "userEntries (ex_env faults) = (\<lambda>fid.
          if fid = 20 then
            [(ex_key 20 1, [10]), ([1, 0, 0, 0, 20], [11]), (ex_key 20 86, [12]),
             (ex_key 20 7, [13]), (ex_key 20 6, [])]
          else [])"
  "messageDecode (ex_env faults) = (\<lambda>v. if v = [] then Inl ex_error else Inr (Message v))"
  "toFarcasterTime (ex_env faults) = (\<lambda>ms. if ms < 1609459200000 then Inl ex_error
                               else Inr ((ms - 1609459200000) div 1000))"
  "dateNow (ex_env faults) = 1609459700000"
  "FID_BYTES (ex_env faults) = 4"
  "TSHASH_LENGTH (ex_env faults) = 24"
  "UserMessagePostfixMax (ex_env faults) = 85"
  "UsernameProofMessage (ex_env faults) = 7"
  "UserDataMessage (ex_env faults) = 6"
  "cron_schedule (ex_env faults) = (\<lambda>e. if e = [] then Inl ex_error
                            else Inr \<lparr>expression = e, scheduled = True\<rparr>)"
  by (simp_all add: ex_env_def)

lemma ex_scheduler_fields:
  "running (ex_scheduler f t) = False"
  "cronTask (ex_scheduler f t) = None"
  "db (ex_scheduler f t) = \<lparr>hubStateEntry =
              Some \<lparr>validateOrRevokeState = Some \<lparr>lastFid = f, lastJobTimestamp = t\<rparr>\<rparr>\<rparr>"
  by (simp_all add: ex_scheduler_def)

lemma ex_key_facts:
  "length (ex_key f t) = 30" "ex_key f t ! 5 = t"
  by (simp_all add: ex_key_def)

lemma ex_usernames_20:
  "doUsernamesJobForFid (ex_env faults) 20
     = (Inr 1, [ForEachIteratorByPrefix 20,
                MessageDecode (ex_key 20 7) [13], ValidateOrRevokeMessage (Message [13]),
                MessageDecode (ex_key 20 6) []])"
  by (simp add: doUsernamesJobForFid_def ex_env_fields ex_key_facts
        doUsernamesJobForFid_callback.simps)

lemma ex_usernames_other:
  "fid \<noteq> 20 \<Longrightarrow> doUsernamesJobForFid (ex_env faults) fid = (Inr 0, [ForEachIteratorByPrefix fid])"
  by (simp add: doUsernamesJobForFid_def ex_env_fields)

lemma ex_signers_20:
  "SignersPaged \<notin> set faults \<Longrightarrow>
   doJobForFid_signers (ex_env faults) 20 None [] []
     = Some (Inr [\<lparr>blockTimestamp = 1609459300\<rparr>, \<lparr>blockTimestamp = 1609459250\<rparr>],
             [GetOnChainSignersByFid 20 None])"
  by (subst doJobForFid_signers.simps) (simp add: ex_env_fields)

lemma ex_latest_20:
  "latestSignerEventTs (ex_env faults)
     [\<lparr>blockTimestamp = 1609459300\<rparr>, \<lparr>blockTimestamp = 1609459250\<rparr>] = 100"
  by (simp add: latestSignerEventTs_def ex_env_fields)

lemma ex_job_20_skipped:
  "SignersPaged \<notin> set faults \<Longrightarrow>
   doJobForFid (ex_env faults) 150 20 = Some (Inr 0, [GetOnChainSignersByFid 20 None])"
  by (simp add: doJobForFid_def ex_signers_20 ex_latest_20)

lemma ex_job_20_swept:
  "SignersPaged \<notin> set faults \<Longrightarrow>
   doJobForFid (ex_env faults) 50 20
     = Some (Inr 2, [GetOnChainSignersByFid 20 None, ForEachIteratorByPrefix 20,
                     MessageDecode (ex_key 20 1) [10], ValidateOrRevokeMessage (Message [10]),
                     MessageDecode (ex_key 20 7) [13], ValidateOrRevokeMessage (Message [13]),
                     MessageDecode (ex_key 20 6) []])"
  by (simp add: doJobForFid_def ex_signers_20 ex_latest_20 ex_env_fields ex_key_facts
        doJobForFid_callback.simps)

lemma ex_job_30:
  "doJobForFid (ex_env faults) 150 30 = Some (Inr 0, [GetOnChainSignersByFid 30 None])"
  by (simp add: doJobForFid_def signers_last_page [where p = "\<lparr>events = [], signersNextPageToken = None\<rparr>"]
        latestSignerEventTs_def ex_env_fields)

lemma ex_job_10:
  "SignerFetchFails \<notin> set faults \<Longrightarrow>
   doJobForFid (ex_env faults) 150 10 = Some (Inr 0, [GetOnChainSignersByFid 10 None])"
  by (simp add: doJobForFid_def signers_last_page [where p = "\<lparr>events = [], signersNextPageToken = None\<rparr>"]
        latestSignerEventTs_def ex_env_fields)

lemma ex_job_10_fails:
  "SignerFetchFails \<in> set faults \<Longrightarrow>
   doJobForFid (ex_env faults) ts 10 = Some (Inl ex_error, [GetOnChainSignersByFid 10 None])"
  by (simp add: doJobForFid_def signers_error [where e = ex_error] ex_env_fields)

lemma ex_job_20_hangs:
  "SignersPaged \<in> set faults \<Longrightarrow> doJobForFid (ex_env faults) ts 20 = None"
  by (simp add: doJobForFid_def
        signers_more_pages [where p = "\<lparr>events = [\<lparr>blockTimestamp = 1609459300\<rparr>],
                       signersNextPageToken = Some [7]\<rparr>" and t = "[7]"] ex_env_fields)

lemma ex_run_resumed:
  "doJobs (ex_env []) (ex_scheduler 20 150)
     = Some (Inr 1, ex_scheduler 0 500,
             [GetFids None 100,
              GetOnChainSignersByFid 20 None, ForEachIteratorByPrefix 20,
              MessageDecode (ex_key 20 7) [13], ValidateOrRevokeMessage (Message [13]),
              MessageDecode (ex_key 20 6) [],
              GetFids (Some [1]) 100,
              GetOnChainSignersByFid 30 None, ForEachIteratorByPrefix 30])"
  by (simp add: doJobs_def getHubState_def putHubState_def ex_scheduler_def
        doJobs_pages.simps [of "ex_env []"] ex_env_fields(1,5,6)
        ex_job_20_skipped ex_job_30 ex_usernames_20 ex_usernames_other)

lemma ex_run_signer_fetch_fails:
  "doJobs (ex_env [SignerFetchFails]) (ex_scheduler 0 150)
     = Some (Inr 1, ex_scheduler 0 500,
             [GetFids None 100,
              GetOnChainSignersByFid 10 None, ForEachIteratorByPrefix 10,
              GetOnChainSignersByFid 20 None, ForEachIteratorByPrefix 20,
              MessageDecode (ex_key 20 7) [13], ValidateOrRevokeMessage (Message [13]),
              MessageDecode (ex_key 20 6) [],
              GetFids (Some [1]) 100,
              GetOnChainSignersByFid 30 None, ForEachIteratorByPrefix 30])"
  by (simp add: doJobs_def getHubState_def putHubState_def ex_scheduler_def
        doJobs_pages.simps [of "ex_env [SignerFetchFails]"] ex_env_fields(1,5,6)
        ex_job_10_fails ex_job_20_skipped ex_job_30 ex_usernames_20 ex_usernames_other)

lemma ex_run_both_fail:
  "doJobs (ex_env [SignerFetchFails, SecondPageFails]) (ex_scheduler 0 150)
     = Some (Inl (Returned ex_page_error), (ex_scheduler 0 150)\<lparr>running := True\<rparr>,
             [GetFids None 100,
              GetOnChainSignersByFid 10 None, ForEachIteratorByPrefix 10,
              GetOnChainSignersByFid 20 None, ForEachIteratorByPrefix 20,
              MessageDecode (ex_key 20 7) [13], ValidateOrRevokeMessage (Message [13]),
              MessageDecode (ex_key 20 6) [],
              GetFids (Some [1]) 100])"
  by (simp add: doJobs_def getHubState_def putHubState_def ex_scheduler_def
        doJobs_pages.simps [of "ex_env [SignerFetchFails, SecondPageFails]"] ex_env_fields(1,5,6)
        ex_job_10_fails ex_job_20_skipped ex_job_30 ex_usernames_20 ex_usernames_other)

lemma ex_run_page_fails:
  "doJobs (ex_env [SecondPageFails]) (ex_scheduler 0 150)
     = Some (Inl (Returned ex_page_error), (ex_scheduler 0 150)\<lparr>running := True\<rparr>,
             [GetFids None 100,
              GetOnChainSignersByFid 10 None, ForEachIteratorByPrefix 10,
              GetOnChainSignersByFid 20 None, ForEachIteratorByPrefix 20,
              MessageDecode (ex_key 20 7) [13], ValidateOrRevokeMessage (Message [13]),
              MessageDecode (ex_key 20 6) [],
              GetFids (Some [1]) 100])"
  by (simp add: doJobs_def getHubState_def putHubState_def ex_scheduler_def
        doJobs_pages.simps [of "ex_env [SecondPageFails]"] ex_env_fields(1,5,6)
        ex_job_10 ex_job_20_skipped ex_job_30 ex_usernames_20 ex_usernames_other)

lemma ex_run_hangs:
  "doJobs (ex_env [SignersPaged]) (ex_scheduler 0 150) = None"
  by (simp add: doJobs_def getHubState_def putHubState_def ex_scheduler_def
        doJobs_pages.simps [of "ex_env [SignersPaged]"] ex_env_fields(1,5,6)
        ex_job_10 ex_job_20_hangs ex_job_30 ex_usernames_20 ex_usernames_other)

lemma ex_scan:
  "hubStateEntry (db s) = Some h \<Longrightarrow>
   doJobs_scan (ex_env []) (150, 0, 1609459700000) s
     = Some (Inr 1,
             s\<lparr>db := \<lparr>hubStateEntry = Some (h\<lparr>validateOrRevokeState :=
                         Some \<lparr>lastFid = 0, lastJobTimestamp = 500\<rparr>\<rparr>)\<rparr>,
               running := False\<rparr>,
             [GetFids None 100,
              GetOnChainSignersByFid 10 None, ForEachIteratorByPrefix 10,
              GetOnChainSignersByFid 20 None, ForEachIteratorByPrefix 20,
              MessageDecode (ex_key 20 7) [13], ValidateOrRevokeMessage (Message [13]),
              MessageDecode (ex_key 20 6) [],
              GetFids (Some [1]) 100,
              GetOnChainSignersByFid 30 None, ForEachIteratorByPrefix 30])"
  by (simp add: doJobs_scan_def getHubState_def putHubState_def
        doJobs_pages.simps [of "ex_env []"] ex_env_fields(1,5,6)
        ex_job_10 ex_job_20_skipped ex_job_30 ex_usernames_20 ex_usernames_other)

lemma ex_run_resumed_hangs:
  "doJobs (ex_env [SignersPaged]) (ex_scheduler 20 150) = None"
  by (simp add: doJobs_def getHubState_def ex_scheduler_def
        doJobs_pages.simps [of "ex_env [SignersPaged]"] ex_env_fields(1)
        ex_job_20_hangs)

subsection \<open>The properties at the example\<close>

text \<open>Whenever a run that has started ends in a failure, the flag stays set.\<close>

lemma doJobs_failure_keeps_running:
  assumes "doJobs env s = Some (Inl f, s', cs)" and "\<not> running s" and "getHubState (db s) = Inr h"
  shows "running s'"
  using doJobs_cases [OF assms(1)] assms(2,3) by auto

text \<open>The guard at the example: a trigger on a scheduler whose flag is set.\<close>

theorem doJobs_while_running_is_noop_witness:
  "running ((ex_scheduler 0 150)\<lparr>running := True\<rparr>)
   \<and> doJobs (ex_env []) ((ex_scheduler 0 150)\<lparr>running := True\<rparr>)
       = Some (Inr 0, (ex_scheduler 0 150)\<lparr>running := True\<rparr>, [])"
proof -
  have h: "running ((ex_scheduler 0 150)\<lparr>running := True\<rparr>)" by simp
  from doJobs_while_running_is_noop [OF h, of "ex_env []"] h show ?thesis by simp
qed

text \<open>The skip at the example: entity 20, last changed at 100, with \<^verbatim>\<open>lastJobTimestamp\<close> 150.\<close>

theorem doJobForFid_skips_unchanged_entity_witness:
  "doJobForFid_signers (ex_env []) 20 None [] []
     = Some (Inr [\<lparr>blockTimestamp = 1609459300\<rparr>, \<lparr>blockTimestamp = 1609459250\<rparr>],
             [GetOnChainSignersByFid 20 None])
   \<and> latestSignerEventTs (ex_env [])
        [\<lparr>blockTimestamp = 1609459300\<rparr>, \<lparr>blockTimestamp = 1609459250\<rparr>] < 150
   \<and> doJobForFid (ex_env []) 150 20 = Some (Inr 0, [GetOnChainSignersByFid 20 None])"
proof -
  have h1: "doJobForFid_signers (ex_env []) 20 None [] []
     = Some (Inr [\<lparr>blockTimestamp = 1609459300\<rparr>, \<lparr>blockTimestamp = 1609459250\<rparr>],
             [GetOnChainSignersByFid 20 None])"
    by (simp add: ex_signers_20)
  have h2: "latestSignerEventTs (ex_env [])
        [\<lparr>blockTimestamp = 1609459300\<rparr>, \<lparr>blockTimestamp = 1609459250\<rparr>] < 150"
    by (simp add: ex_latest_20)
  from doJobForFid_skips_unchanged_entity [OF h1 h2] h1 h2 show ?thesis by simp
qed

lemma ex_pages:
  "fidsPagesFrom (ex_env []) None
     [\<lparr>fids = [10, 20], nextPageToken = Some [1]\<rparr>, \<lparr>fids = [30], nextPageToken = None\<rparr>]"
  by (rule fidsPagesFrom.next_page [where t = "[1]"], simp add: ex_env_fields, simp,
      rule fidsPagesFrom.last_page, simp add: ex_env_fields, simp)

text \<open>The resume filter at the example: resumed from entity 20, the run sweeps 20 and 30 and not 10.\<close>

theorem doJobs_resumes_from_lastFid_witness:
  "doJobs (ex_env []) (ex_scheduler 20 150)
     = Some (Inr 1, ex_scheduler 0 500,
             [GetFids None 100,
              GetOnChainSignersByFid 20 None, ForEachIteratorByPrefix 20,
              MessageDecode (ex_key 20 7) [13], ValidateOrRevokeMessage (Message [13]),
              MessageDecode (ex_key 20 6) [],
              GetFids (Some [1]) 100,
              GetOnChainSignersByFid 30 None, ForEachIteratorByPrefix 30])
   \<and> fidsPagesFrom (ex_env []) None
        [\<lparr>fids = [10, 20], nextPageToken = Some [1]\<rparr>, \<lparr>fids = [30], nextPageToken = None\<rparr>]
   \<and> (ForEachIteratorByPrefix 30
        \<in> set [GetFids None 100,
              GetOnChainSignersByFid 20 None, ForEachIteratorByPrefix 20,
              MessageDecode (ex_key 20 7) [13], ValidateOrRevokeMessage (Message [13]),
              MessageDecode (ex_key 20 6) [],
              GetFids (Some [1]) 100,
              GetOnChainSignersByFid 30 None, ForEachIteratorByPrefix 30])
      = (30 \<in> set (concat (map fids
           [\<lparr>fids = [10, 20], nextPageToken = Some [1]\<rparr>, \<lparr>fids = [30], nextPageToken = None\<rparr>]))
         \<and> (20::nat) \<le> 30)
   \<and> (GetOnChainSignersByFid 10 None
        \<in> set [GetFids None 100,
              GetOnChainSignersByFid 20 None, ForEachIteratorByPrefix 20,
              MessageDecode (ex_key 20 7) [13], ValidateOrRevokeMessage (Message [13]),
              MessageDecode (ex_key 20 6) [],
              GetFids (Some [1]) 100,
              GetOnChainSignersByFid 30 None, ForEachIteratorByPrefix 30])
      = (10 \<in> set (concat (map fids
           [\<lparr>fids = [10, 20], nextPageToken = Some [1]\<rparr>, \<lparr>fids = [30], nextPageToken = None\<rparr>]))
         \<and> (20::nat) \<le> 10)"
proof -
  have h2: "\<not> running (ex_scheduler 20 150)" by (simp add: ex_scheduler_fields)
  have h3: "getHubState (db (ex_scheduler 20 150))
              = Inr \<lparr>validateOrRevokeState = Some \<lparr>lastFid = 20, lastJobTimestamp = 150\<rparr>\<rparr>"
    by (simp add: ex_scheduler_fields getHubState_def)
  have h4: "validateOrRevokeState \<lparr>validateOrRevokeState = Some \<lparr>lastFid = 20, lastJobTimestamp = 150\<rparr>\<rparr>
              = Some \<lparr>lastFid = 20, lastJobTimestamp = 150\<rparr>" by simp
  have h5: "0 < lastFid \<lparr>lastFid = 20, lastJobTimestamp = 150\<rparr>" by simp
  from doJobs_resumes_from_lastFid [OF ex_run_resumed h2 h3 h4 h5 ex_pages, of 30 None]
       doJobs_resumes_from_lastFid [OF ex_run_resumed h2 h3 h4 h5 ex_pages, of 10 None]
       ex_run_resumed ex_pages
  show ?thesis by simp
qed

text \<open>Claim C7 at the example: the run that started at Farcaster time 500 leaves \<open>(0, 500)\<close>.\<close>

theorem doJobs_terminal_checkpoint_witness:
  "doJobs (ex_env []) (ex_scheduler 20 150)
     = Some (Inr 1, ex_scheduler 0 500,
             [GetFids None 100,
              GetOnChainSignersByFid 20 None, ForEachIteratorByPrefix 20,
              MessageDecode (ex_key 20 7) [13], ValidateOrRevokeMessage (Message [13]),
              MessageDecode (ex_key 20 6) [],
              GetFids (Some [1]) 100,
              GetOnChainSignersByFid 30 None, ForEachIteratorByPrefix 30])
   \<and> \<not> running (ex_scheduler 20 150)
   \<and> (\<exists>h. getHubState (db (ex_scheduler 0 500)) = Inr h
         \<and> validateOrRevokeState h
             = Some \<lparr>lastFid = 0,
                     lastJobTimestamp =
                       unwrapOr (toFarcasterTime (ex_env []) (dateNow (ex_env []))) 0\<rparr>)
   \<and> unwrapOr (toFarcasterTime (ex_env []) (dateNow (ex_env []))) 0 = 500
   \<and> \<not> running (ex_scheduler 0 500)"
proof -
  have h2: "\<not> running (ex_scheduler 20 150)" by (simp add: ex_scheduler_fields)
  have t: "unwrapOr (toFarcasterTime (ex_env []) (dateNow (ex_env []))) 0 = 500"
    by (simp add: ex_env_fields)
  from doJobs_terminal_checkpoint [OF ex_run_resumed h2] ex_run_resumed h2 t
  show ?thesis by blast
qed

text \<open>The username sweep at the example: entity 20 is unchanged since the last run, and its sweep runs.\<close>

theorem usernames_sweep_unconditional_witness:
  "doJobs (ex_env []) (ex_scheduler 20 150)
     = Some (Inr 1, ex_scheduler 0 500,
             [GetFids None 100,
              GetOnChainSignersByFid 20 None, ForEachIteratorByPrefix 20,
              MessageDecode (ex_key 20 7) [13], ValidateOrRevokeMessage (Message [13]),
              MessageDecode (ex_key 20 6) [],
              GetFids (Some [1]) 100,
              GetOnChainSignersByFid 30 None, ForEachIteratorByPrefix 30])
   \<and> doJobForFid (ex_env []) 150 20 = Some (Inr 0, [GetOnChainSignersByFid 20 None])
   \<and> sublist ([GetOnChainSignersByFid 20 None] @ snd (doUsernamesJobForFid (ex_env []) 20))
        [GetFids None 100,
         GetOnChainSignersByFid 20 None, ForEachIteratorByPrefix 20,
         MessageDecode (ex_key 20 7) [13], ValidateOrRevokeMessage (Message [13]),
         MessageDecode (ex_key 20 6) [],
         GetFids (Some [1]) 100,
         GetOnChainSignersByFid 30 None, ForEachIteratorByPrefix 30]
   \<and> MessageDecode (ex_key 20 7) [13] \<in> set (snd (doUsernamesJobForFid (ex_env []) 20))
   \<and> unat (ex_key 20 7 ! (1 + FID_BYTES (ex_env []))) = UsernameProofMessage (ex_env [])"
proof -
  have h2: "getHubState (db (ex_scheduler 20 150))
              = Inr \<lparr>validateOrRevokeState = Some \<lparr>lastFid = 20, lastJobTimestamp = 150\<rparr>\<rparr>"
    by (simp add: ex_scheduler_fields getHubState_def)
  have h3: "GetOnChainSignersByFid 20 None
              \<in> set [GetFids None 100,
              GetOnChainSignersByFid 20 None, ForEachIteratorByPrefix 20,
              MessageDecode (ex_key 20 7) [13], ValidateOrRevokeMessage (Message [13]),
              MessageDecode (ex_key 20 6) [],
              GetFids (Some [1]) 100,
              GetOnChainSignersByFid 30 None, ForEachIteratorByPrefix 30]" by simp
  have j: "doJobForFid (ex_env []) 150 20 = Some (Inr 0, [GetOnChainSignersByFid 20 None])"
    by (simp add: ex_job_20_skipped)
  have m: "MessageDecode (ex_key 20 7) [13] \<in> set (snd (doUsernamesJobForFid (ex_env []) 20))"
    by (simp add: ex_usernames_20)
  from usernames_sweep_unconditional [OF ex_run_resumed h2 h3] ex_run_resumed j m
  show ?thesis by (simp add: ex_env_fields ex_key_facts)
qed

text \<open>Claim C9 at the example: the key of entity 20 with tag 86.\<close>

theorem record_sweep_skips_non_message_keys_witness:
  "UserMessagePostfixMax (ex_env []) < unat (ex_key 20 86 ! (1 + FID_BYTES (ex_env [])))
   \<and> (ex_key 20 86, [12]) \<in> set (userEntries (ex_env []) 20)
   \<and> doJobForFid_callback (ex_env []) (0, []) (ex_key 20 86, [12]) = (0, [])
   \<and> doJobForFid (ex_env []) 50 20
        = Some (Inr 2, [GetOnChainSignersByFid 20 None, ForEachIteratorByPrefix 20,
                        MessageDecode (ex_key 20 1) [10], ValidateOrRevokeMessage (Message [10]),
                        MessageDecode (ex_key 20 7) [13], ValidateOrRevokeMessage (Message [13]),
                        MessageDecode (ex_key 20 6) []])
   \<and> MessageDecode (ex_key 20 86) [12]
        \<notin> set [GetOnChainSignersByFid 20 None, ForEachIteratorByPrefix 20,
                MessageDecode (ex_key 20 1) [10], ValidateOrRevokeMessage (Message [10]),
                MessageDecode (ex_key 20 7) [13], ValidateOrRevokeMessage (Message [13]),
                MessageDecode (ex_key 20 6) []]
   \<and> UsernameProofMessage (ex_env []) \<le> UserMessagePostfixMax (ex_env [])
   \<and> UserDataMessage (ex_env []) \<le> UserMessagePostfixMax (ex_env [])
   \<and> doUsernamesJobForFid_callback (ex_env []) (0, []) (ex_key 20 86, [12]) = (0, [])
   \<and> MessageDecode (ex_key 20 86) [12] \<notin> set (snd (doUsernamesJobForFid (ex_env []) 20))"
proof -
  have h: "length (ex_key 20 86) \<noteq> 1 + FID_BYTES (ex_env []) + 1 + TSHASH_LENGTH (ex_env [])
      \<or> UserMessagePostfixMax (ex_env []) < unat (ex_key 20 86 ! (1 + FID_BYTES (ex_env [])))"
    by (simp add: ex_env_fields ex_key_facts)
  have e: "(ex_key 20 86, [12]) \<in> set (userEntries (ex_env []) 20)"
    by (simp add: ex_env_fields)
  have j: "doJobForFid (ex_env []) 50 20
        = Some (Inr 2, [GetOnChainSignersByFid 20 None, ForEachIteratorByPrefix 20,
                        MessageDecode (ex_key 20 1) [10], ValidateOrRevokeMessage (Message [10]),
                        MessageDecode (ex_key 20 7) [13], ValidateOrRevokeMessage (Message [13]),
                        MessageDecode (ex_key 20 6) []])"
    by (simp add: ex_job_20_swept)
  have c: "UsernameProofMessage (ex_env []) \<le> UserMessagePostfixMax (ex_env [])
           \<and> UserDataMessage (ex_env []) \<le> UserMessagePostfixMax (ex_env [])"
    by (simp add: ex_env_fields)
  note skipped = record_sweep_skips_non_message_keys [OF h, of "(0, [])" "[12]"]
  from skipped have a: "doJobForFid_callback (ex_env []) (0, []) (ex_key 20 86, [12]) = (0, [])"
    by (rule conjunct1)
  from skipped j have b: "MessageDecode (ex_key 20 86) [12]
        \<notin> set [GetOnChainSignersByFid 20 None, ForEachIteratorByPrefix 20,
                MessageDecode (ex_key 20 1) [10], ValidateOrRevokeMessage (Message [10]),
                MessageDecode (ex_key 20 7) [13], ValidateOrRevokeMessage (Message [13]),
                MessageDecode (ex_key 20 6) []]"
    by blast
  from skipped c have d: "doUsernamesJobForFid_callback (ex_env []) (0, []) (ex_key 20 86, [12]) = (0, [])
      \<and> MessageDecode (ex_key 20 86) [12] \<notin> set (snd (doUsernamesJobForFid (ex_env []) 20))"
    by blast
  have t: "UserMessagePostfixMax (ex_env []) < unat (ex_key 20 86 ! (1 + FID_BYTES (ex_env [])))"
    by (simp add: ex_env_fields ex_key_facts)
  from t e a j b c d show ?thesis by (intro conjI) (erule conjunct1 conjunct2 | assumption)+
qed

text \<open>Claim C10 at the example: started with the default schedule, then stopped.\<close>

theorem status_started_forever_witness:
  "start (ex_env []) None (ex_scheduler 0 150)
     = Inr ((ex_scheduler 0 150)\<lparr>cronTask := Some \<lparr>expression = ''0 1 * * *'', scheduled = True\<rparr>\<rparr>)
   \<and> stop ((ex_scheduler 0 150)\<lparr>cronTask := Some \<lparr>expression = ''0 1 * * *'', scheduled = True\<rparr>\<rparr>)
       = (ex_scheduler 0 150)\<lparr>cronTask := Some \<lparr>expression = ''0 1 * * *'', scheduled = False\<rparr>\<rparr>
   \<and> reaches (ex_env [])
        ((ex_scheduler 0 150)\<lparr>cronTask := Some \<lparr>expression = ''0 1 * * *'', scheduled = True\<rparr>\<rparr>)
        ((ex_scheduler 0 150)\<lparr>cronTask := Some \<lparr>expression = ''0 1 * * *'', scheduled = False\<rparr>\<rparr>)
   \<and> status ((ex_scheduler 0 150)\<lparr>cronTask := Some \<lparr>expression = ''0 1 * * *'', scheduled = False\<rparr>\<rparr>)
       = Started
   \<and> status (ex_scheduler 0 150) = Stopped"
proof -
  have h: "start (ex_env []) None (ex_scheduler 0 150)
     = Inr ((ex_scheduler 0 150)\<lparr>cronTask := Some \<lparr>expression = ''0 1 * * *'', scheduled = True\<rparr>\<rparr>)"
    by (simp add: start_def ex_env_fields DEFAULT_VALIDATE_AND_REVOKE_MESSAGES_CRON_def)
  have s: "stop ((ex_scheduler 0 150)\<lparr>cronTask := Some \<lparr>expression = ''0 1 * * *'', scheduled = True\<rparr>\<rparr>)
       = (ex_scheduler 0 150)\<lparr>cronTask := Some \<lparr>expression = ''0 1 * * *'', scheduled = False\<rparr>\<rparr>"
    by (simp add: stop_def)
  have r: "reaches (ex_env [])
        ((ex_scheduler 0 150)\<lparr>cronTask := Some \<lparr>expression = ''0 1 * * *'', scheduled = True\<rparr>\<rparr>)
        (stop ((ex_scheduler 0 150)\<lparr>cronTask := Some \<lparr>expression = ''0 1 * * *'', scheduled = True\<rparr>\<rparr>))"
    by (intro reaches.by_stop reaches.here)
  have z: "status (ex_scheduler 0 150) = Stopped"
    by (simp add: status_def ex_scheduler_fields)
  from status_started_forever [OF h] h s r z show ?thesis by (simp only:)
qed

text \<open>
  Claim C1 as stated fails. The signer fetch of entity 10 fails and \<^verbatim>\<open>doJobForFid\<close>
  returns the error; \<^verbatim>\<open>doJobs\<close> returns \<^verbatim>\<open>ok(1)\<close>, having swept the usernames of
  entity 10 and gone on to the entities 20 and 30 and to the terminal checkpoint.
\<close>

theorem doJobs_aborts_on_signer_fetch_error_counterexample:
  "doJobForFid (ex_env [SignerFetchFails]) 150 10
     = Some (Inl ex_error, [GetOnChainSignersByFid 10 None])
   \<and> doJobs (ex_env [SignerFetchFails]) (ex_scheduler 0 150)
     = Some (Inr 1, ex_scheduler 0 500,
             [GetFids None 100,
              GetOnChainSignersByFid 10 None, ForEachIteratorByPrefix 10,
              GetOnChainSignersByFid 20 None, ForEachIteratorByPrefix 20,
              MessageDecode (ex_key 20 7) [13], ValidateOrRevokeMessage (Message [13]),
              MessageDecode (ex_key 20 6) [],
              GetFids (Some [1]) 100,
              GetOnChainSignersByFid 30 None, ForEachIteratorByPrefix 30])"
  by (simp add: ex_job_10_fails ex_run_signer_fetch_fails)

text \<open>
  Claim C1 as amended, at the example where the signer fetch of entity 10 and the fetch
  of the second page both fail: the error returned is that of the page.
\<close>

theorem doJobs_continues_after_signer_fetch_error_witness:
  "doJobs (ex_env [SignerFetchFails, SecondPageFails]) (ex_scheduler 0 150)
     = Some (Inl (Returned ex_page_error), (ex_scheduler 0 150)\<lparr>running := True\<rparr>,
             [GetFids None 100,
              GetOnChainSignersByFid 10 None, ForEachIteratorByPrefix 10,
              GetOnChainSignersByFid 20 None, ForEachIteratorByPrefix 20,
              MessageDecode (ex_key 20 7) [13], ValidateOrRevokeMessage (Message [13]),
              MessageDecode (ex_key 20 6) [],
              GetFids (Some [1]) 100])
   \<and> getFids (ex_env [SignerFetchFails, SecondPageFails]) (Some [1]) 100 = Inl ex_page_error
   \<and> getHubState (db (ex_scheduler 0 150)) \<noteq> Inl ex_page_error
   \<and> doJobForFid (ex_env [SignerFetchFails, SecondPageFails]) 150 10
       = Some (Inl ex_error, [GetOnChainSignersByFid 10 None])
   \<and> doJobs_fids (ex_env [SignerFetchFails, SecondPageFails]) 150 0 [10, 20]
        \<lparr>totalMessagesChecked = 0, totalFidsChecked = 0, store = db (ex_scheduler 0 150),
         calls = [GetFids None 100]\<rparr>
       = doJobs_fids (ex_env [SignerFetchFails, SecondPageFails]) 150 0 [20]
           \<lparr>totalMessagesChecked = 0, totalFidsChecked = 1, store = db (ex_scheduler 0 150),
            calls = [GetFids None 100, GetOnChainSignersByFid 10 None, ForEachIteratorByPrefix 10]\<rparr>"
proof -
  have p: "getFids (ex_env [SignerFetchFails, SecondPageFails]) (Some [1]) 100 = Inl ex_page_error"
    by (simp add: ex_env_fields)
  have g: "getHubState (db (ex_scheduler 0 150)) \<noteq> Inl ex_page_error"
    by (simp add: ex_scheduler_fields getHubState_def)
  have j: "doJobForFid (ex_env [SignerFetchFails, SecondPageFails]) 150 10
       = Some (Inl ex_error, [GetOnChainSignersByFid 10 None])"
    by (simp add: ex_job_10_fails)
  have u: "doUsernamesJobForFid (ex_env [SignerFetchFails, SecondPageFails]) 10
             = (Inr 0, [ForEachIteratorByPrefix 10])"
    by (simp add: ex_usernames_other)
  from doJobs_continues_after_signer_fetch_error
         [of "ex_env [SignerFetchFails, SecondPageFails]" "ex_scheduler 0 150" ex_page_error
             "(ex_scheduler 0 150)\<lparr>running := True\<rparr>"
             "[GetFids None 100,
              GetOnChainSignersByFid 10 None, ForEachIteratorByPrefix 10,
              GetOnChainSignersByFid 20 None, ForEachIteratorByPrefix 20,
              MessageDecode (ex_key 20 7) [13], ValidateOrRevokeMessage (Message [13]),
              MessageDecode (ex_key 20 6) [],
              GetFids (Some [1]) 100]"
             150 10 ex_error "[GetOnChainSignersByFid 10 None]" 0
             "\<lparr>totalMessagesChecked = 0, totalFidsChecked = 0, store = db (ex_scheduler 0 150),
               calls = [GetFids None 100]\<rparr>" "[20]"]
       ex_run_both_fail p g j u
  show ?thesis by simp
qed

text \<open>
  Claim C2 fails on the code. The signer events of entity 20 are on two pages; the engine
  answers the request without a token with the first page and the request with its token
  with the last. \<^verbatim>\<open>doJobForFid\<close> never asks with the token: it does not return, and
  neither does the run.
\<close>

theorem doJobForFid_never_fetches_second_signer_page:
  "getOnChainSignersByFid (ex_env [SignersPaged]) 20 None
     = Inr \<lparr>events = [\<lparr>blockTimestamp = 1609459300\<rparr>], signersNextPageToken = Some [7]\<rparr>
   \<and> getOnChainSignersByFid (ex_env [SignersPaged]) 20 (Some [7])
     = Inr \<lparr>events = [\<lparr>blockTimestamp = 1609459250\<rparr>], signersNextPageToken = None\<rparr>
   \<and> doJobForFid (ex_env [SignersPaged]) 150 20 = None
   \<and> doJobs (ex_env [SignersPaged]) (ex_scheduler 0 150) = None"
  by (simp add: ex_env_fields ex_job_20_hangs ex_run_hangs)

text \<open>
  Claim C3 fails on the code. The fetch of the second page of entities fails; \<^verbatim>\<open>doJobs\<close>
  returns the error with the flag \<^verbatim>\<open>_running\<close> still set, and the next trigger, with
  the entity source healthy again, returns \<^verbatim>\<open>ok(0)\<close> without scanning.
\<close>

theorem doJobs_abort_leaves_running_flag_set:
  "doJobs (ex_env [SecondPageFails]) (ex_scheduler 0 150)
     = Some (Inl (Returned ex_page_error), (ex_scheduler 0 150)\<lparr>running := True\<rparr>,
             [GetFids None 100,
              GetOnChainSignersByFid 10 None, ForEachIteratorByPrefix 10,
              GetOnChainSignersByFid 20 None, ForEachIteratorByPrefix 20,
              MessageDecode (ex_key 20 7) [13], ValidateOrRevokeMessage (Message [13]),
              MessageDecode (ex_key 20 6) [],
              GetFids (Some [1]) 100])
   \<and> doJobs (ex_env []) ((ex_scheduler 0 150)\<lparr>running := True\<rparr>)
     = Some (Inr 0, (ex_scheduler 0 150)\<lparr>running := True\<rparr>, [])"
proof
  show "doJobs (ex_env [SecondPageFails]) (ex_scheduler 0 150)
     = Some (Inl (Returned ex_page_error), (ex_scheduler 0 150)\<lparr>running := True\<rparr>,
             [GetFids None 100,
              GetOnChainSignersByFid 10 None, ForEachIteratorByPrefix 10,
              GetOnChainSignersByFid 20 None, ForEachIteratorByPrefix 20,
              MessageDecode (ex_key 20 7) [13], ValidateOrRevokeMessage (Message [13]),
              MessageDecode (ex_key 20 6) [],
              GetFids (Some [1]) 100])"
    by (rule ex_run_page_fails)
  show "doJobs (ex_env []) ((ex_scheduler 0 150)\<lparr>running := True\<rparr>)
     = Some (Inr 0, (ex_scheduler 0 150)\<lparr>running := True\<rparr>, [])"
    by (simp add: doJobs_def)
qed

text \<open>
  Claim C4 fails on the code. Two triggers reach an idle scheduler, the second while the
  first awaits the hub state (line 51): it finds the flag clear and is suspended like the
  first. Each then sets the flag on line 63, the second although it is set by then, so
  two runs are in their scan at once; and each scans all three entities and returns
  \<^verbatim>\<open>ok(1)\<close>, where the claim has the second trigger return \<^verbatim>\<open>ok(0)\<close> without a scan.
\<close>

theorem doJobs_second_trigger_before_flag_scans_too:
  "doJobs_enter (ex_scheduler 0 150)
     = Awaits (Inr \<lparr>validateOrRevokeState = Some \<lparr>lastFid = 0, lastJobTimestamp = 150\<rparr>\<rparr>)
   \<and> doJobs_start (ex_env [])
        (Inr \<lparr>validateOrRevokeState = Some \<lparr>lastFid = 0, lastJobTimestamp = 150\<rparr>\<rparr>)
        (ex_scheduler 0 150)
     = (Awaits (150, 0, 1609459700000), (ex_scheduler 0 150)\<lparr>running := True\<rparr>)
   \<and> doJobs_start (ex_env [])
        (Inr \<lparr>validateOrRevokeState = Some \<lparr>lastFid = 0, lastJobTimestamp = 150\<rparr>\<rparr>)
        ((ex_scheduler 0 150)\<lparr>running := True\<rparr>)
     = (Awaits (150, 0, 1609459700000), (ex_scheduler 0 150)\<lparr>running := True\<rparr>)
   \<and> doJobs_scan (ex_env []) (150, 0, 1609459700000) ((ex_scheduler 0 150)\<lparr>running := True\<rparr>)
     = Some (Inr 1, ex_scheduler 0 500,
             [GetFids None 100,
              GetOnChainSignersByFid 10 None, ForEachIteratorByPrefix 10,
              GetOnChainSignersByFid 20 None, ForEachIteratorByPrefix 20,
              MessageDecode (ex_key 20 7) [13], ValidateOrRevokeMessage (Message [13]),
              MessageDecode (ex_key 20 6) [],
              GetFids (Some [1]) 100,
              GetOnChainSignersByFid 30 None, ForEachIteratorByPrefix 30])
   \<and> doJobs_scan (ex_env []) (150, 0, 1609459700000) (ex_scheduler 0 500)
     = Some (Inr 1, ex_scheduler 0 500,
             [GetFids None 100,
              GetOnChainSignersByFid 10 None, ForEachIteratorByPrefix 10,
              GetOnChainSignersByFid 20 None, ForEachIteratorByPrefix 20,
              MessageDecode (ex_key 20 7) [13], ValidateOrRevokeMessage (Message [13]),
              MessageDecode (ex_key 20 6) [],
              GetFids (Some [1]) 100,
              GetOnChainSignersByFid 30 None, ForEachIteratorByPrefix 30])"
proof (intro conjI)
  show "doJobs_enter (ex_scheduler 0 150)
     = Awaits (Inr \<lparr>validateOrRevokeState = Some \<lparr>lastFid = 0, lastJobTimestamp = 150\<rparr>\<rparr>)"
    by (simp add: doJobs_enter_def ex_scheduler_def getHubState_def)
  show "doJobs_start (ex_env [])
        (Inr \<lparr>validateOrRevokeState = Some \<lparr>lastFid = 0, lastJobTimestamp = 150\<rparr>\<rparr>)
        (ex_scheduler 0 150)
     = (Awaits (150, 0, 1609459700000), (ex_scheduler 0 150)\<lparr>running := True\<rparr>)"
    by (simp add: doJobs_start_def ex_env_fields)
  show "doJobs_start (ex_env [])
        (Inr \<lparr>validateOrRevokeState = Some \<lparr>lastFid = 0, lastJobTimestamp = 150\<rparr>\<rparr>)
        ((ex_scheduler 0 150)\<lparr>running := True\<rparr>)
     = (Awaits (150, 0, 1609459700000), (ex_scheduler 0 150)\<lparr>running := True\<rparr>)"
    by (simp add: doJobs_start_def ex_env_fields)
  show "doJobs_scan (ex_env []) (150, 0, 1609459700000) ((ex_scheduler 0 150)\<lparr>running := True\<rparr>)
     = Some (Inr 1, ex_scheduler 0 500,
             [GetFids None 100,
              GetOnChainSignersByFid 10 None, ForEachIteratorByPrefix 10,
              GetOnChainSignersByFid 20 None, ForEachIteratorByPrefix 20,
              MessageDecode (ex_key 20 7) [13], ValidateOrRevokeMessage (Message [13]),
              MessageDecode (ex_key 20 6) [],
              GetFids (Some [1]) 100,
              GetOnChainSignersByFid 30 None, ForEachIteratorByPrefix 30])"
    by (subst ex_scan [where h = "\<lparr>validateOrRevokeState = Some \<lparr>lastFid = 0, lastJobTimestamp = 150\<rparr>\<rparr>"])
       (simp_all add: ex_scheduler_def)
  show "doJobs_scan (ex_env []) (150, 0, 1609459700000) (ex_scheduler 0 500)
     = Some (Inr 1, ex_scheduler 0 500,
             [GetFids None 100,
              GetOnChainSignersByFid 10 None, ForEachIteratorByPrefix 10,
              GetOnChainSignersByFid 20 None, ForEachIteratorByPrefix 20,
              MessageDecode (ex_key 20 7) [13], ValidateOrRevokeMessage (Message [13]),
              MessageDecode (ex_key 20 6) [],
              GetFids (Some [1]) 100,
              GetOnChainSignersByFid 30 None, ForEachIteratorByPrefix 30])"
    by (subst ex_scan [where h = "\<lparr>validateOrRevokeState = Some \<lparr>lastFid = 0, lastJobTimestamp = 500\<rparr>\<rparr>"])
       (simp_all add: ex_scheduler_def)
qed

text \<open>
  Claim C5 fails on the code. Both signer events of entity 20, on two pages, are older
  than \<^verbatim>\<open>lastJobTimestamp = 150\<close>, and \<^verbatim>\<open>doJobForFid\<close> does not return \<^verbatim>\<open>ok(0)\<close>: it never
  returns, since it requests the first page for ever.
\<close>

theorem doJobForFid_unchanged_paged_entity_never_returns:
  "getOnChainSignersByFid (ex_env [SignersPaged]) 20 None
     = Inr \<lparr>events = [\<lparr>blockTimestamp = 1609459300\<rparr>], signersNextPageToken = Some [7]\<rparr>
   \<and> getOnChainSignersByFid (ex_env [SignersPaged]) 20 (Some [7])
     = Inr \<lparr>events = [\<lparr>blockTimestamp = 1609459250\<rparr>], signersNextPageToken = None\<rparr>
   \<and> latestSignerEventTs (ex_env [SignersPaged])
        [\<lparr>blockTimestamp = 1609459300\<rparr>, \<lparr>blockTimestamp = 1609459250\<rparr>] < 150
   \<and> doJobForFid (ex_env [SignersPaged]) 150 20 = None"
  by (simp add: ex_env_fields ex_job_20_hangs ex_latest_20)

text \<open>
  Claim C6 fails on the code. The run resumes from entity 20, whose signer events are on
  two pages. The loop over the first page of entities never gets past entity 20, the run
  does not return, and entity 30 on the second page, which is not below 20, is never
  processed.
\<close>

theorem doJobs_resumed_run_never_reaches_later_entities:
  "getHubState (db (ex_scheduler 20 150))
     = Inr \<lparr>validateOrRevokeState = Some \<lparr>lastFid = 20, lastJobTimestamp = 150\<rparr>\<rparr>
   \<and> getFids (ex_env [SignersPaged]) None 100 = Inr \<lparr>fids = [10, 20], nextPageToken = Some [1]\<rparr>
   \<and> getFids (ex_env [SignersPaged]) (Some [1]) 100 = Inr \<lparr>fids = [30], nextPageToken = None\<rparr>
   \<and> doJobs_fids (ex_env [SignersPaged]) 150 20 [10, 20]
        \<lparr>totalMessagesChecked = 0, totalFidsChecked = 0, store = db (ex_scheduler 20 150),
         calls = [GetFids None 100]\<rparr> = None
   \<and> doJobs (ex_env [SignersPaged]) (ex_scheduler 20 150) = None"
proof (intro conjI)
  show "getHubState (db (ex_scheduler 20 150))
     = Inr \<lparr>validateOrRevokeState = Some \<lparr>lastFid = 20, lastJobTimestamp = 150\<rparr>\<rparr>"
    by (simp add: ex_scheduler_def getHubState_def)
  show "getFids (ex_env [SignersPaged]) None 100 = Inr \<lparr>fids = [10, 20], nextPageToken = Some [1]\<rparr>"
    by (simp add: ex_env_fields)
  show "getFids (ex_env [SignersPaged]) (Some [1]) 100 = Inr \<lparr>fids = [30], nextPageToken = None\<rparr>"
    by (simp add: ex_env_fields)
  show "doJobs_fids (ex_env [SignersPaged]) 150 20 [10, 20]
        \<lparr>totalMessagesChecked = 0, totalFidsChecked = 0, store = db (ex_scheduler 20 150),
         calls = [GetFids None 100]\<rparr> = None"
    by (simp add: ex_job_20_hangs)
  show "doJobs (ex_env [SignersPaged]) (ex_scheduler 20 150) = None"
    by (rule ex_run_resumed_hangs)
qed

text \<open>
  Claim C8 fails on the code. Entity 20 is processed and has a username proof to validate,
  but its \<^verbatim>\<open>doJobForFid\<close> on line 91 never returns, so the loop never reaches the
  username sweep on line 92.
\<close>

theorem doJobs_usernames_sweep_not_reached_when_signer_fetch_hangs:
  "doJobForFid (ex_env [SignersPaged]) 150 20 = None
   \<and> doUsernamesJobForFid (ex_env [SignersPaged]) 20
       = (Inr 1, [ForEachIteratorByPrefix 20,
                  MessageDecode (ex_key 20 7) [13], ValidateOrRevokeMessage (Message [13]),
                  MessageDecode (ex_key 20 6) []])
   \<and> doJobs_fids (ex_env [SignersPaged]) 150 0 [20]
        \<lparr>totalMessagesChecked = 0, totalFidsChecked = 0, store = db (ex_scheduler 0 150),
         calls = []\<rparr> = None"
  by (simp add: ex_job_20_hangs ex_usernames_20)

end
